theory Spec2Isabelle
  imports Main "HOL-Library.Word" "HOL-Library.Sublist"
begin

section \<open>Attachment extraction from EML files: a shallow embedding of eml_extractor.py\<close>

text \<open>
  The script is a linear batch tool: it parses its command line, resolves a list of
  message files, and for every message writes each attachment to a destination
  directory under a randomly generated name. Everything the script does to its
  environment is made explicit here: the filesystem, the standard input answering the
  overwrite prompt, the operating system's random bytes and the printed lines are
  fields of one \<open>world\<close> record that every operation takes and returns, and every
  exception of the Python code is a \<open>Raise\<close> outcome.

  The Python standard library is not part of the repository. The pieces of it the
  script calls are modelled after their documented POSIX behaviour
  on Linux (\<open>os.path.splitext\<close>, \<open>secrets.token_hex\<close>, \<open>str.upper\<close>, \<open>Path.exists\<close>,
  \<open>Path.mkdir\<close>, \<open>open\<close>, \<open>Path.glob\<close>, \<open>input\<close>, \<open>argparse\<close>); the mail parser
  (\<open>email.message_from_file\<close>) is a parameter.
\<close>

subsection \<open>Strings\<close>

text \<open>
  \<open>str.rfind\<close> for a single character: the highest index at which the character
  occurs, \<open>-1\<close> when it does not occur.
\<close>

primrec rfind :: "char \<Rightarrow> string \<Rightarrow> int" where
  "rfind c [] = - 1"
| "rfind c (x # xs) =
     (let r = rfind c xs in if 0 \<le> r then r + 1 else if x = c then 0 else - 1)"

text \<open>
  The loop of \<open>genericpath._splitext\<close> that skips leading dots: it scans the slice
  between the last separator and the last dot and answers whether some character of it
  is not a dot (in which case the name is split at the last dot).
\<close>

primrec has_non_dot :: "string \<Rightarrow> bool" where
  "has_non_dot [] = False"
| "has_non_dot (c # cs) = (if c \<noteq> CHR ''.'' then True else has_non_dot cs)"

text \<open>
  \<open>os.path.splitext\<close> (posixpath: separator \<open>/\<close>, no alternative separator,
  extension separator \<open>.\<close>):
  \<^verbatim>\<open>
    sepIndex = p.rfind(sep)
    dotIndex = p.rfind(extsep)
    if dotIndex > sepIndex:
        filenameIndex = sepIndex + 1
        while filenameIndex < dotIndex:
            if p[filenameIndex:filenameIndex+1] != extsep:
                return p[:dotIndex], p[dotIndex:]
            filenameIndex += 1
    return p, p[:0]
  \<close>
\<close>

definition splitext :: "string \<Rightarrow> string \<times> string" where
  "splitext p =
     (let sepIndex = rfind CHR ''/'' p;
          dotIndex = rfind CHR ''.'' p
      in if sepIndex < dotIndex
            \<and> has_non_dot (take (nat (dotIndex - (sepIndex + 1))) (drop (nat (sepIndex + 1)) p))
         then (take (nat dotIndex) p, drop (nat dotIndex) p)
         else (p, []))"

text \<open>
  \<open>str.upper\<close> on the ASCII letters. A character outside \<open>a..z\<close> is left as it is;
  Python maps a non-ASCII letter to another non-ASCII letter or to several letters, never
  to the single letter \<open>Y\<close>, so the comparison of the script is not affected.
\<close>

definition upper_char :: "char \<Rightarrow> char" where
  "upper_char c =
     (if (97::nat) \<le> of_char c \<and> of_char c \<le> (122::nat)
      then char_of (of_char c - (32::nat)) else c)"

definition upper :: "string \<Rightarrow> string" where
  "upper s = map upper_char s"

text \<open>
  The characters line 25 of the script keeps (\<open>c.isalpha() or c.isdigit() or c == ' '\<close>,
  on ASCII), and \<open>str.rstrip\<close> for the blank it can leave at the end.
\<close>

definition keeps_char :: "char \<Rightarrow> bool" where
  "keeps_char c =
     (let n = (of_char c :: nat)
      in (65 \<le> n \<and> n \<le> 90) \<or> (97 \<le> n \<and> n \<le> 122) \<or> (48 \<le> n \<and> n \<le> 57) \<or> n = 32)"

definition rstrip :: "string \<Rightarrow> string" where
  "rstrip s = rev (dropWhile (\<lambda>c. c = CHR '' '') (rev s))"

subsection \<open>Random tokens\<close>

type_synonym byte = "8 word"

text \<open>
  \<open>binascii.hexlify\<close>: two lower-case hexadecimal digits per byte, the high nibble
  first.
\<close>

definition hex_digit :: "nat \<Rightarrow> char" where
  "hex_digit n = ''0123456789abcdef'' ! n"

definition hexlify :: "byte list \<Rightarrow> string" where
  "hexlify bs = concat (map (\<lambda>b. [hex_digit (unat b div 16), hex_digit (unat b mod 16)]) bs)"

definition is_hex :: "char \<Rightarrow> bool" where
  "is_hex c = (c \<in> set ''0123456789abcdef'')"

subsection \<open>The environment\<close>

text \<open>
  A path is the list of its components below the root. The filesystem lists every entry
  with its kind: a regular file with its bytes, or a directory. The root is always a
  directory. The listing is meant to be a tree: the parent of every entry is a
  directory of the listing.
\<close>

type_synonym path = "string list"

datatype entry = File "byte list" | Dir

type_synonym filesystem = "(path \<times> entry) list"

text \<open>
  The names the operating system refuses. A name that holds a NUL byte never reaches the
  system: the conversion of the path raises \<open>ValueError\<close> (\<open>embedded null byte\<close>). A name
  longer than \<open>NAME_MAX\<close>, 255 bytes, is refused with the error \<open>ENAMETOOLONG\<close>, a plain
  \<open>OSError\<close>. A character of a name is one byte here.
\<close>

definition has_nul :: "path \<Rightarrow> bool" where
  "has_nul p = list_ex (\<lambda>name. CHR 0x00 \<in> set name) p"

definition name_max :: nat where
  "name_max = 255"

definition too_long :: "path \<Rightarrow> bool" where
  "too_long p = list_ex (\<lambda>name. name_max < length name) p"

text \<open>
  The exceptions the script can end with. \<open>OSError\<close> is the plain \<open>OSError\<close> of a name that
  is too long, \<open>LibraryError\<close> stands for an exception of the mail library (reading,
  parsing or decoding), \<open>SystemExit\<close> for the exit of \<open>argparse\<close> with its status.
\<close>

datatype error =
    FileNotFoundError
  | FileExistsError
  | IsADirectoryError
  | NotADirectoryError
  | ValueError
  | OSError
  | TypeError
  | EOFError
  | ArgumentTypeError
  | LibraryError string
  | SystemExit nat

text \<open>
  The lines the script prints, one constructor per \<open>print\<close> or \<open>input\<close> call of the
  source with the values its format string interpolates:
  \<^item> \<open>Processing file\<close>: \<^verbatim>\<open>PROCESSING FILE "{file}"\<close>
  \<^item> \<open>No_attachments_found\<close>: \<^verbatim>\<open>>> No attachments found.\<close>
  \<^item> \<open>Attachment_found filename\<close>: \<^verbatim>\<open>>> Attachment found: {filename}\<close>
  \<^item> \<open>Overwrite_prompt filename\<close>: the prompt of \<open>input\<close>,
    \<^verbatim>\<open>>> The file "{filename}" already exists! Overwrite it (Y/n)? \<close>
  \<^item> \<open>Skipping\<close>: \<^verbatim>\<open>>> Skipping...\<close>
  \<^item> \<open>Saving file\<close>: \<^verbatim>\<open>>> Saving attachment to "{file}"\<close>
  \<^item> \<open>No_eml_files_found\<close>: \<^verbatim>\<open>No EML files found!\<close>
  \<^item> \<open>Done\<close>: \<^verbatim>\<open>Done.\<close>
\<close>

datatype printed =
    Processing path
  | No_attachments_found
  | Attachment_found string
  | Overwrite_prompt string
  | Skipping
  | Saving path
  | No_eml_files_found
  | Done

text \<open>
  The world: the filesystem, the working directory, the lines still to be read from the
  standard input, the random bytes of the operating system (an unbounded sequence and
  the position of the next unread byte) and the lines printed so far.
\<close>

record world =
  fs :: filesystem
  cwd :: path
  stdin :: "string list"
  entropy :: "nat \<Rightarrow> byte"
  cursor :: nat
  stdout :: "printed list"

datatype outcome = Ok world | Raise error world

primrec world_of :: "outcome \<Rightarrow> world" where
  "world_of (Ok w) = w"
| "world_of (Raise e w) = w"

primrec is_Ok :: "outcome \<Rightarrow> bool" where
  "is_Ok (Ok w) = True"
| "is_Ok (Raise e w) = False"

primrec error_of :: "outcome \<Rightarrow> error option" where
  "error_of (Ok w) = None"
| "error_of (Raise e w) = Some e"

definition print_line :: "printed \<Rightarrow> world \<Rightarrow> world" where
  "print_line x w = w\<lparr>stdout := stdout w @ [x]\<rparr>"

text \<open>
  The entry at a path. No entry has a name that the operating system refuses: such a path
  leads to nothing, whatever the listing holds.
\<close>

definition lookup :: "world \<Rightarrow> path \<Rightarrow> entry option" where
  "lookup w p =
     (if p = [] then Some Dir
      else if has_nul p \<or> too_long p then None
      else map_of (fs w) p)"

text \<open>What is at a path: something, a directory, a regular file.\<close>

definition exists_path :: "world \<Rightarrow> path \<Rightarrow> bool" where
  "exists_path w p = (lookup w p \<noteq> None)"

definition is_dir :: "world \<Rightarrow> path \<Rightarrow> bool" where
  "is_dir w p = (lookup w p = Some Dir)"

definition is_file :: "world \<Rightarrow> path \<Rightarrow> bool" where
  "is_file w p = (case lookup w p of Some (File b) \<Rightarrow> True | _ \<Rightarrow> False)"

definition write_entry :: "filesystem \<Rightarrow> path \<Rightarrow> entry \<Rightarrow> filesystem" where
  "write_entry f p e = (p, e) # filter (\<lambda>x. fst x \<noteq> p) f"

text \<open>
  \<open>Path.exists()\<close>: \<open>os.stat\<close> with the errors of a missing path taken for the answer
  \<open>False\<close>. The \<open>ValueError\<close> of a NUL byte is caught and answered \<open>False\<close> as well; the
  \<open>OSError\<close> of a name that is too long is not among the errors it ignores and is raised.
\<close>

definition path_exists :: "path \<Rightarrow> world \<Rightarrow> error + bool" where
  "path_exists p w =
     (if has_nul p then Inr False
      else if too_long p then Inl OSError
      else Inr (exists_path w p))"

text \<open>
  \<open>Path.mkdir(exist_ok=True)\<close> (without \<open>parents\<close>): nothing to do for an existing
  directory; a name that the system refuses, an existing file, a missing parent and a
  parent that is a file are errors.
\<close>

definition mkdir :: "path \<Rightarrow> world \<Rightarrow> outcome" where
  "mkdir p w =
     (if has_nul p then Raise ValueError w
      else if too_long p then Raise OSError w
      else if is_dir w p then Ok w
      else if exists_path w p then Raise FileExistsError w
      else if \<not> exists_path w (butlast p) then Raise FileNotFoundError w
      else if \<not> is_dir w (butlast p) then Raise NotADirectoryError w
      else Ok (w\<lparr>fs := write_entry (fs w) p Dir\<rparr>))"

text \<open>
  \<open>open(file, 'wb')\<close>: creates the file or truncates it to no bytes; a name that the
  system refuses cannot be opened, a directory cannot be opened for writing, and the
  parent must be a directory.
\<close>

definition open_wb :: "path \<Rightarrow> world \<Rightarrow> outcome" where
  "open_wb p w =
     (if has_nul p then Raise ValueError w
      else if too_long p then Raise OSError w
      else if is_dir w p then Raise IsADirectoryError w
      else if \<not> exists_path w (butlast p) then Raise FileNotFoundError w
      else if \<not> is_dir w (butlast p) then Raise NotADirectoryError w
      else Ok (w\<lparr>fs := write_entry (fs w) p (File [])\<rparr>))"

text \<open>
  \<open>os.urandom\<close> reads the next \<open>n\<close> random bytes; \<open>secrets.token_hex(n)\<close> is their
  \<open>hexlify\<close>.
\<close>

definition urandom :: "nat \<Rightarrow> world \<Rightarrow> byte list \<times> world" where
  "urandom n w = (map (\<lambda>i. entropy w (cursor w + i)) [0..<n], w\<lparr>cursor := cursor w + n\<rparr>)"

definition token_hex :: "nat \<Rightarrow> world \<Rightarrow> string \<times> world" where
  "token_hex n w = (let (bs, w1) = urandom n w in (hexlify bs, w1))"

subsection \<open>Messages\<close>

text \<open>
  A part of a message as the script reads it: \<open>is_attachment()\<close> (the content disposition
  is \<open>attachment\<close>), \<open>get_filename()\<close> (\<open>None\<close> when no filename is declared) and
  \<open>get_payload(decode=True)\<close> (the decoded bytes, \<open>None\<close> for a multipart part, or an
  exception of the library). A message is the sequence of parts that
  \<open>iter_attachments()\<close> yields.
\<close>

record part =
  is_attachment :: bool
  get_filename :: "string option"
  get_payload :: "error + byte list option"

type_synonym message = "part list"

subsection \<open>Saving one attachment\<close>

text \<open>
  \<^verbatim>\<open>
  def save_attachment(file: Path, payload: bytes) -> None:
      with file.open('wb') as f:
          print(f'>> Saving attachment to "{file}"')
          f.write(payload)
  \<close>
  Writing \<open>None\<close> raises \<open>TypeError\<close>, after the file has been opened.
\<close>

definition save_attachment :: "path \<Rightarrow> byte list option \<Rightarrow> world \<Rightarrow> outcome" where
  "save_attachment file payload w =
     (case open_wb file w of
        Raise e w1 \<Rightarrow> Raise e w1
      | Ok w1 \<Rightarrow>
          let w2 = print_line (Saving file) w1
          in (case payload of
                None \<Rightarrow> Raise TypeError w2
              | Some b \<Rightarrow> Ok (w2\<lparr>fs := write_entry (fs w2) file (File b)\<rparr>)))"

text \<open>
  Lines 24 to 26 of the script, the name an attachment is saved under:
  \<^verbatim>\<open>
  filenamea, file_extension = os.path.splitext(filename)
  filename = "".join([c for c in filename if c.isalpha() or c.isdigit() or c==' ']).rstrip()
  filename = secrets.token_hex(10) + file_extension
  \<close>
\<close>

definition target_filename :: "string \<Rightarrow> world \<Rightarrow> string \<times> world" where
  "target_filename filename w =
     (let (filenamea, file_extension) = splitext filename;
          filename = rstrip (filter keeps_char filename);
          (token, w1) = token_hex 10 w;
          filename = token @ file_extension
      in (filename, w1))"

text \<open>
  The body of the loop over the attachments (lines 21 to 35). An attachment without a
  filename is passed over. The payload is decoded before the target is looked up, and
  looking it up can raise; an existing target asks for a line of the standard input,
  which raises \<open>EOFError\<close> when there is none.
\<close>

definition extract_attachment :: "path \<Rightarrow> part \<Rightarrow> world \<Rightarrow> outcome" where
  "extract_attachment basepath attachment w =
     (case get_filename attachment of
        None \<Rightarrow> Ok w
      | Some filename0 \<Rightarrow>
          if filename0 = [] then Ok w
          else
            let (filename, w1) = target_filename filename0 w;
                w2 = print_line (Attachment_found filename) w1;
                filepath = basepath @ [filename]
            in (case get_payload attachment of
                  Inl e \<Rightarrow> Raise e w2
                | Inr payload \<Rightarrow>
                    (case path_exists filepath w2 of
                       Inl e \<Rightarrow> Raise e w2
                     | Inr True \<Rightarrow>
                         (let w3 = print_line (Overwrite_prompt filename) w2
                          in (case stdin w3 of
                                [] \<Rightarrow> Raise EOFError w3
                              | overwrite # rest \<Rightarrow>
                                  let w4 = w3\<lparr>stdin := rest\<rparr>
                                  in if upper overwrite = ''Y''
                                     then save_attachment filepath payload w4
                                     else Ok (print_line Skipping w4)))
                     | Inr False \<Rightarrow>
                         (case mkdir basepath w2 of
                            Raise e w3 \<Rightarrow> Raise e w3
                          | Ok w3 \<Rightarrow> save_attachment filepath payload w3))))"

fun for_attachments :: "path \<Rightarrow> part list \<Rightarrow> world \<Rightarrow> outcome" where
  "for_attachments basepath [] w = Ok w"
| "for_attachments basepath (attachment # rest) w =
     (case extract_attachment basepath attachment w of
        Raise e w1 \<Rightarrow> Raise e w1
      | Ok w1 \<Rightarrow> for_attachments basepath rest w1)"

text \<open>
  \<open>extract_attachments\<close> (lines 9 to 35). The message file is opened for reading (a
  name that the system refuses, a missing file and a directory cannot be opened) and
  parsed by \<open>message_from_file\<close>, the parameter; the attachments are the parts whose
  disposition is \<open>attachment\<close>.
\<close>

definition extract_attachments ::
  "(byte list \<Rightarrow> error + message) \<Rightarrow> path \<Rightarrow> path \<Rightarrow> world \<Rightarrow> outcome" where
  "extract_attachments message_from_file file destination w =
     (let w1 = print_line (Processing file) w
      in if has_nul file then Raise ValueError w1
         else if too_long file then Raise OSError w1
         else (case lookup w1 file of
            None \<Rightarrow> Raise FileNotFoundError w1
          | Some Dir \<Rightarrow> Raise IsADirectoryError w1
          | Some (File content) \<Rightarrow>
              (case message_from_file content of
                 Inl e \<Rightarrow> Raise e w1
               | Inr email_message \<Rightarrow>
                   let attachments = filter is_attachment email_message
                   in if attachments = [] then Ok (print_line No_attachments_found w1)
                      else for_attachments destination attachments w1)))"

subsection \<open>Discovery of message files\<close>

text \<open>
  \<open>Path.glob('*.eml')\<close> yields the entries of a directory whose name matches the pattern,
  \<open>Path.rglob('*.eml')\<close> those of the whole subtree. The pattern \<open>*.eml\<close> matches a
  name that ends in \<open>.eml\<close>; the kind of the entry is not looked at. Scanning something
  that is not a directory yields nothing.
  \<^verbatim>\<open>
  def get_eml_files_from(path: Path, recursively: bool = False) -> List[Path]:
      if recursively:
          return list(path.rglob('*.eml'))
      return list(path.glob('*.eml'))
  \<close>
\<close>

definition matches_eml :: "string \<Rightarrow> bool" where
  "matches_eml name = suffix ''.eml'' name"

definition glob_eml :: "world \<Rightarrow> path \<Rightarrow> path list" where
  "glob_eml w d =
     (if is_dir w d
      then filter (\<lambda>p. p \<noteq> [] \<and> butlast p = d \<and> matches_eml (last p)) (map fst (fs w))
      else [])"

definition rglob_eml :: "world \<Rightarrow> path \<Rightarrow> path list" where
  "rglob_eml w d =
     (if is_dir w d
      then filter (\<lambda>p. strict_prefix d p \<and> matches_eml (last p)) (map fst (fs w))
      else [])"

definition get_eml_files_from :: "world \<Rightarrow> path \<Rightarrow> bool \<Rightarrow> path list" where
  "get_eml_files_from w path recursively =
     (if recursively then rglob_eml w path else glob_eml w path)"

subsection \<open>The command line\<close>

text \<open>
  \<open>Path.suffix\<close>: the part of the last component from its last dot, when that dot is
  neither the first nor the last character of the name.
\<close>

definition path_suffix :: "path \<Rightarrow> string" where
  "path_suffix p =
     (let name = (if p = [] then [] else last p);
          i = rfind CHR ''.'' name
      in if 0 < i \<and> i < int (length name) - 1 then drop (nat i) name else [])"

text \<open>
  The two validators of the argument parser. The argument string is represented by
  the path it denotes.
  \<^verbatim>\<open>
  def check_file(arg_value: str) -> Path:
      file = Path(arg_value)
      if file.is_file() and file.suffix == '.eml':
          return file
      raise ArgumentTypeError(f'"{file}" is not a valid EML file.')

  def check_path(arg_value: str) -> Path:
      path = Path(arg_value)
      if path.is_dir():
          return path
      raise ArgumentTypeError(f'"{path}" is not a valid directory.')
  \<close>
\<close>

definition check_file :: "world \<Rightarrow> path \<Rightarrow> error + path" where
  "check_file w file =
     (if is_file w file \<and> path_suffix file = ''.eml'' then Inr file else Inl ArgumentTypeError)"

definition check_path :: "world \<Rightarrow> path \<Rightarrow> error + path" where
  "check_path w path = (if is_dir w path then Inr path else Inl ArgumentTypeError)"

primrec check_files :: "world \<Rightarrow> path list \<Rightarrow> error + path list" where
  "check_files w [] = Inr []"
| "check_files w (f # rest) =
     (case check_file w f of
        Inl e \<Rightarrow> Inl e
      | Inr v \<Rightarrow> (case check_files w rest of Inl e \<Rightarrow> Inl e | Inr vs \<Rightarrow> Inr (v # vs)))"

text \<open>
  The command line as the sequence of the options it gives, in their order, each with
  its arguments: \<open>-s/--source PATH\<close>, \<open>-r/--recursive\<close>, \<open>-f/--files FILE [FILE ...]\<close>,
  \<open>-d/--destination PATH\<close> and \<open>-h/--help\<close>, the options \<open>get_argument_parser\<close>
  declares. The result of parsing is the namespace of \<open>argparse\<close>.
\<close>

datatype cli_option =
    Source_option path
  | Recursive_option
  | Files_option "path list"
  | Destination_option path
  | Help_option

record namespace =
  source :: path
  recursive :: bool
  files :: "path list option"
  destination :: path

text \<open>
  \<open>ArgumentParser.parse_args\<close> for this parser: the options are taken in order. The
  value of an option is converted by its \<open>type\<close> function first (an
  \<open>ArgumentTypeError\<close> ends the run with status 2). \<open>--source\<close> and \<open>--files\<close> are in one
  mutually exclusive group: an option of the group that comes after the other one has
  been given ends the run with status 2 (\<open>not allowed with argument\<close>). \<open>--files\<close> needs at
  least one argument (\<open>nargs='+'\<close>). \<open>--help\<close> ends the run with status 0. The two flags
  of the state say whether \<open>--source\<close> and \<open>--files\<close> have been given. The result is the
  exit status or the namespace.
\<close>

fun take_actions ::
  "world \<Rightarrow> cli_option list \<Rightarrow> namespace \<times> bool \<times> bool \<Rightarrow> nat + namespace" where
  "take_actions w [] (ns, seen_source, seen_files) = Inr ns"
| "take_actions w (Help_option # rest) (ns, seen_source, seen_files) = Inl 0"
| "take_actions w (Recursive_option # rest) (ns, seen_source, seen_files) =
     take_actions w rest (ns\<lparr>recursive := True\<rparr>, seen_source, seen_files)"
| "take_actions w (Destination_option p # rest) (ns, seen_source, seen_files) =
     (case check_path w p of
        Inl e \<Rightarrow> Inl 2
      | Inr v \<Rightarrow> take_actions w rest (ns\<lparr>destination := v\<rparr>, seen_source, seen_files))"
| "take_actions w (Source_option p # rest) (ns, seen_source, seen_files) =
     (case check_path w p of
        Inl e \<Rightarrow> Inl 2
      | Inr v \<Rightarrow>
          if seen_files then Inl 2
          else take_actions w rest (ns\<lparr>source := v\<rparr>, True, seen_files))"
| "take_actions w (Files_option ps # rest) (ns, seen_source, seen_files) =
     (if ps = [] then Inl 2
      else (case check_files w ps of
              Inl e \<Rightarrow> Inl 2
            | Inr vs \<Rightarrow>
                if seen_source then Inl 2
                else take_actions w rest (ns\<lparr>files := Some vs\<rparr>, seen_source, True)))"

text \<open>
  \<open>parse_arguments\<close>: both \<open>--source\<close> and \<open>--destination\<close> default to the working
  directory, \<open>--recursive\<close> to false and \<open>--files\<close> to \<open>None\<close>.
\<close>

definition parse_arguments :: "world \<Rightarrow> cli_option list \<Rightarrow> nat + namespace" where
  "parse_arguments w argv =
     take_actions w argv
       (\<lparr>source = cwd w, recursive = False, files = None, destination = cwd w\<rparr>, False, False)"

subsection \<open>The driver\<close>

fun for_files ::
  "(byte list \<Rightarrow> error + message) \<Rightarrow> path \<Rightarrow> path list \<Rightarrow> world \<Rightarrow> outcome" where
  "for_files message_from_file dest [] w = Ok w"
| "for_files message_from_file dest (file # rest) w =
     (case extract_attachments message_from_file file dest w of
        Raise e w1 \<Rightarrow> Raise e w1
      | Ok w1 \<Rightarrow> for_files message_from_file dest rest w1)"

text \<open>
  The file set of a run: \<open>args.files or get_eml_files_from(args.source, args.recursive)\<close>.
  \<open>None\<close> and the empty list are false in Python.
\<close>

definition eml_files_of :: "world \<Rightarrow> namespace \<Rightarrow> path list" where
  "eml_files_of w args =
     (case files args of
        None \<Rightarrow> get_eml_files_from w (source args) (recursive args)
      | Some [] \<Rightarrow> get_eml_files_from w (source args) (recursive args)
      | Some (f # rest) \<Rightarrow> f # rest)"

text \<open>
  \<^verbatim>\<open>
  def main():
      args = parse_arguments()
      eml_files = args.files or get_eml_files_from(args.source, args.recursive)
      if not eml_files:
          print(f'No EML files found!')
      for file in eml_files:
          extract_attachments(file, destination=args.destination)
      print('Done.')
  \<close>
  No exception is caught: the first one ends the run.
\<close>

definition main ::
  "(byte list \<Rightarrow> error + message) \<Rightarrow> cli_option list \<Rightarrow> world \<Rightarrow> outcome" where
  "main message_from_file argv w =
     (case parse_arguments w argv of
        Inl status \<Rightarrow> Raise (SystemExit status) w
      | Inr args \<Rightarrow>
          let eml_files = eml_files_of w args;
              w1 = (if eml_files = [] then print_line No_eml_files_found w else w)
          in (case for_files message_from_file (destination args) eml_files w1 of
                Raise e w2 \<Rightarrow> Raise e w2
              | Ok w2 \<Rightarrow> Ok (print_line Done w2)))"

subsection \<open>Predicates and example worlds of the statements\<close>

text \<open>
  The shape of an extension as \<open>splitext\<close> returns it: empty, or a dot followed by
  characters that are neither a dot nor a separator.
\<close>

definition is_extension :: "string \<Rightarrow> bool" where
  "is_extension e =
     (case e of
        [] \<Rightarrow> True
      | c # r \<Rightarrow> c = CHR ''.'' \<and> CHR ''.'' \<notin> set r \<and> CHR ''/'' \<notin> set r)"

text \<open>A token of \<open>token_hex(10)\<close>: twenty lower-case hexadecimal digits.\<close>

definition is_token :: "string \<Rightarrow> bool" where
  "is_token t = (length t = 20 \<and> list_all is_hex t)"

text \<open>The token that \<open>token_hex(10)\<close> returns when the next unread random byte is at
  position \<open>k\<close>.\<close>

definition token_at :: "world \<Rightarrow> nat \<Rightarrow> string" where
  "token_at w k = hexlify (map (\<lambda>i. entropy w (k + i)) [0..<10])"


text \<open>
  The world in which the answer to the overwrite prompt is interpreted: the token has been
  drawn, the name of the target and the prompt have been printed, and one line of the
  standard input has been read.
\<close>

definition prompted :: "string \<Rightarrow> world \<Rightarrow> world" where
  "prompted name w =
     (print_line (Overwrite_prompt name)
        (print_line (Attachment_found name) (w\<lparr>cursor := cursor w + 10\<rparr>)))
       \<lparr>stdin := tl (stdin w)\<rparr>"

text \<open>
  A small world for the examples: a mail directory with one message file, an empty output
  directory, random bytes that are all zero (so every token is twenty zeros), and the
  given lines on the standard input. The example parser reads every file as a message
  with one attachment, \<open>report.pdf\<close>.
\<close>

definition example_world :: "string list \<Rightarrow> world" where
  "example_world answers =
     \<lparr>fs = [([''mail''], Dir), ([''mail'', ''m.eml''], File [1, 2]), ([''out''], Dir)],
      cwd = [''mail''], stdin = answers, entropy = (\<lambda>i. 0), cursor = 0, stdout = []\<rparr>"

definition example_parser :: "byte list \<Rightarrow> error + message" where
  "example_parser content =
     Inr [\<lparr>is_attachment = True, get_filename = Some ''report.pdf'',
           get_payload = Inr (Some [7, 8, 9])\<rparr>]"

text \<open>
  A world with three message files for a batch, the second of which the batch parser
  cannot read.
\<close>

definition batch_world :: world where
  "batch_world =
     \<lparr>fs = [([''mail''], Dir), ([''mail'', ''a.eml''], File [1, 2]),
            ([''mail'', ''bad.eml''], File [0]), ([''mail'', ''c.eml''], File [1, 2]),
            ([''out''], Dir)],
      cwd = [''mail''], stdin = [], entropy = (\<lambda>i. 0), cursor = 0, stdout = []\<rparr>"

definition batch_parser :: "byte list \<Rightarrow> error + message" where
  "batch_parser content =
     (if content = [0] then Inl (LibraryError ''malformed'') else example_parser content)"

text \<open>
  A world for the directory scan: the mail directory holds a message file, a text file,
  a directory whose name ends in \<open>.eml\<close>, and a subdirectory with one more message file.
\<close>

definition scan_world :: world where
  "scan_world =
     \<lparr>fs = [([''mail''], Dir), ([''mail'', ''a.eml''], File [1, 2]),
            ([''mail'', ''notes.txt''], File [3]),
            ([''mail'', ''x.eml''], Dir),
            ([''mail'', ''sub''], Dir), ([''mail'', ''sub'', ''b.eml''], File [1, 2]),
            ([''out''], Dir)],
      cwd = [''mail''], stdin = [], entropy = (\<lambda>i. 0), cursor = 0, stdout = []\<rparr>"

text \<open>
  A world whose random bytes count up from zero, so that the first token is
  \<open>00010203040506070809\<close> and the second \<open>0a0b0c0d0e0f10111213\<close>, and a parser that reads
  every file as a message with two attachments, \<open>report.pdf\<close> and \<open>photo.jpg\<close>.
\<close>

definition counting_world :: "string list \<Rightarrow> world" where
  "counting_world answers =
     \<lparr>fs = [([''mail''], Dir), ([''mail'', ''m.eml''], File [1, 2]), ([''out''], Dir)],
      cwd = [''mail''], stdin = answers, entropy = (\<lambda>i. of_nat i), cursor = 0, stdout = []\<rparr>"

definition report_pdf :: part where
  "report_pdf =
     \<lparr>is_attachment = True, get_filename = Some ''report.pdf'', get_payload = Inr (Some [7, 8, 9])\<rparr>"

definition photo_jpg :: part where
  "photo_jpg =
     \<lparr>is_attachment = True, get_filename = Some ''photo.jpg'', get_payload = Inr (Some [4, 5])\<rparr>"

definition two_parser :: "byte list \<Rightarrow> error + message" where
  "two_parser content = Inr [report_pdf, photo_jpg]"

text \<open>
  A parser that reads every file as a message with one attachment whose filename has a NUL
  byte in its extension, as the header \<^verbatim>\<open>filename*=utf-8''a.p%00df\<close> declares it.
\<close>

definition nul_parser :: "byte list \<Rightarrow> error + message" where
  "nul_parser content =
     Inr [\<lparr>is_attachment = True, get_filename = Some (''a.p'' @ CHR 0x00 # ''df''),
           get_payload = Inr (Some [7, 8, 9])\<rparr>]"

text \<open>
  The example world with a file already at the first target, \<open>out/00000000000000000000.pdf\<close>,
  and a parser that reads two attachments with the extension \<open>.pdf\<close>: with random bytes
  that are all zero both get the same target.
\<close>

definition collision_world :: "string list \<Rightarrow> world" where
  "collision_world answers =
     \<lparr>fs = [([''mail''], Dir), ([''mail'', ''m.eml''], File [1, 2]), ([''out''], Dir),
            ([''out'', ''00000000000000000000.pdf''], File [0])],
      cwd = [''mail''], stdin = answers, entropy = (\<lambda>i. 0), cursor = 0, stdout = []\<rparr>"

definition two_pdf_parser :: "byte list \<Rightarrow> error + message" where
  "two_pdf_parser content =
     Inr [\<lparr>is_attachment = True, get_filename = Some ''a.pdf'', get_payload = Inr (Some [7])\<rparr>,
          \<lparr>is_attachment = True, get_filename = Some ''b.pdf'', get_payload = Inr (Some [8])\<rparr>]"

text \<open>
  A world in which the message file is itself named like a target,
  \<open>mail/00000000000000000000.eml\<close>, and a parser that reads one attachment named
  \<open>fwd.eml\<close>.
\<close>

definition source_world :: "string list \<Rightarrow> world" where
  "source_world answers =
     \<lparr>fs = [([''mail''], Dir), ([''mail'', ''00000000000000000000.eml''], File [1, 2])],
      cwd = [''mail''], stdin = answers, entropy = (\<lambda>i. 0), cursor = 0, stdout = []\<rparr>"

definition fwd_parser :: "byte list \<Rightarrow> error + message" where
  "fwd_parser content =
     Inr [\<lparr>is_attachment = True, get_filename = Some ''fwd.eml'', get_payload = Inr (Some [9])\<rparr>]"


section \<open>Properties of the library functions\<close>

subsection \<open>rfind and splitext\<close>

lemma rfind_ge: "- 1 \<le> rfind c s"
  by (induction s) (auto simp: Let_def)

lemma rfind_lt: "rfind c s < int (length s)"
  by (induction s) (auto simp: Let_def)

lemma rfind_notin: "c \<notin> set s \<Longrightarrow> rfind c s = - 1"
  by (induction s) (auto simp: Let_def)

lemma rfind_in: "c \<in> set s \<Longrightarrow> 0 \<le> rfind c s"
  by (induction s) (auto simp: Let_def)

lemma rfind_nth: "0 \<le> rfind c s \<Longrightarrow> s ! nat (rfind c s) = c"
  by (induction s) (auto simp: Let_def nat_add_distrib split: if_splits)

lemma rfind_append:
  "rfind c (xs @ ys) = (if c \<in> set ys then int (length xs) + rfind c ys else rfind c xs)"
proof (induction xs)
  case Nil
  show ?case by (simp add: rfind_notin)
next
  case (Cons x xs)
  show ?case
  proof (cases "c \<in> set ys")
    case True
    then have "0 \<le> rfind c ys" by (rule rfind_in)
    with True Cons show ?thesis by (simp add: Let_def)
  next
    case False
    with Cons show ?thesis by (simp add: Let_def)
  qed
qed

lemma rfind_drop: "0 \<le> rfind c s \<Longrightarrow> c \<notin> set (drop (Suc (nat (rfind c s))) s)"
proof (induction s)
  case Nil
  then show ?case by simp
next
  case (Cons x xs)
  show ?case
  proof (cases "0 \<le> rfind c xs")
    case True
    then have "nat (rfind c xs + 1) = Suc (nat (rfind c xs))" by simp
    with True Cons show ?thesis by (simp add: Let_def)
  next
    case False
    then have "c \<notin> set xs" using rfind_in[of c xs] by auto
    with False Cons.prems show ?thesis by (auto simp: Let_def split: if_splits)
  qed
qed

lemma snd_splitext_is_extension: "is_extension (snd (splitext p))"
proof (cases "snd (splitext p) = []")
  case True
  then show ?thesis by (simp add: is_extension_def)
next
  case False
  define s where "s = rfind CHR ''/'' p"
  define d where "d = rfind CHR ''.'' p"
  from False have sd: "s < d" and ext: "snd (splitext p) = drop (nat d) p"
    by (auto simp: splitext_def Let_def s_def d_def split: if_splits)
  have s: "- 1 \<le> s" unfolding s_def by (rule rfind_ge)
  with sd have d0: "0 \<le> d" by simp
  have dl: "nat d < length p" using rfind_lt[of "CHR ''.''" p] d0 by (simp add: d_def)
  have hd: "p ! nat d = CHR ''.''" using rfind_nth[of "CHR ''.''" p] d0 by (simp add: d_def)
  have e: "snd (splitext p) = CHR ''.'' # drop (Suc (nat d)) p"
    using Cons_nth_drop_Suc[OF dl] hd ext by simp
  have nodot: "CHR ''.'' \<notin> set (drop (Suc (nat d)) p)"
    using rfind_drop[of "CHR ''.''" p] d0 by (simp add: d_def)
  have noslash: "CHR ''/'' \<notin> set (drop (Suc (nat d)) p)"
  proof (cases "0 \<le> s")
    case True
    then have "CHR ''/'' \<notin> set (drop (Suc (nat s)) p)"
      using rfind_drop[of "CHR ''/''" p] by (simp add: s_def)
    moreover have "Suc (nat s) \<le> Suc (nat d)" using sd by simp
    ultimately show ?thesis using set_drop_subset_set_drop[of "Suc (nat s)" "Suc (nat d)" p] by auto
  next
    case False
    then have "CHR ''/'' \<notin> set p" using rfind_in[of "CHR ''/''" p] by (auto simp: s_def)
    then show ?thesis by (meson in_set_dropD)
  qed
  show ?thesis by (simp add: e is_extension_def nodot noslash)
qed

lemma splitext_token:
  assumes t: "t \<noteq> []" "CHR ''.'' \<notin> set t" "CHR ''/'' \<notin> set t"
    and e: "is_extension e"
  shows "splitext (t @ e) = (t, e)"
proof (cases e)
  case Nil
  with t show ?thesis by (simp add: splitext_def rfind_notin[of "CHR ''.''" t] rfind_notin[of "CHR ''/''" t])
next
  case (Cons c r)
  with e have c: "c = CHR ''.''" and r: "CHR ''.'' \<notin> set r" "CHR ''/'' \<notin> set r"
    by (simp_all add: is_extension_def)
  have d: "rfind CHR ''.'' (t @ e) = int (length t)"
    using r by (simp add: rfind_append Cons c rfind_notin[of "CHR ''.''" r])
  have s: "rfind CHR ''/'' (t @ e) = - 1"
    by (rule rfind_notin) (simp add: Cons c r t)
  have "has_non_dot t" using t by (cases t) auto
  then show ?thesis by (simp add: splitext_def Let_def d s)
qed

subsection \<open>hexlify and upper\<close>

lemma hexlify_length: "length (hexlify bs) = 2 * length bs"
  by (induction bs) (simp_all add: hexlify_def)

lemma hex_digit_is_hex: "n < 16 \<Longrightarrow> is_hex (hex_digit n)"
  unfolding is_hex_def hex_digit_def by (rule nth_mem) simp

lemma hexlify_is_hex: "list_all is_hex (hexlify bs)"
proof (induction bs)
  case Nil
  show ?case by (simp add: hexlify_def)
next
  case (Cons b bs)
  have "unat b < 256" using unsigned_less[of b] by simp
  then have "unat b div 16 < 16" by simp
  then show ?case using Cons by (simp add: hexlify_def hex_digit_is_hex)
qed

lemma of_char_upper_char:
  "(of_char (upper_char c) :: nat) =
     (if 97 \<le> (of_char c :: nat) \<and> (of_char c :: nat) \<le> 122 then of_char c - 32 else of_char c)"
proof (cases "97 \<le> (of_char c :: nat) \<and> (of_char c :: nat) \<le> 122")
  case True
  then have "(of_char c - 32 :: nat) < 256" by arith
  then have "(of_char c - 32 :: nat) mod 256 = of_char c - 32" by (rule mod_less)
  with True show ?thesis by (simp add: upper_char_def)
next
  case False
  then show ?thesis by (auto simp: upper_char_def)
qed

lemma upper_char_Y: "upper_char c = CHR ''Y'' \<longleftrightarrow> c = CHR ''Y'' \<or> c = CHR ''y''"
proof -
  have "upper_char c = CHR ''Y'' \<longleftrightarrow> (of_char (upper_char c) :: nat) = of_char CHR ''Y''"
    by (simp only: of_char_eq_iff)
  also have "\<dots> \<longleftrightarrow> (of_char c :: nat) = 89 \<or> (of_char c :: nat) = 121"
    by (auto simp: of_char_upper_char)
  also have "\<dots> \<longleftrightarrow> (of_char c :: nat) = of_char CHR ''Y'' \<or> (of_char c :: nat) = of_char CHR ''y''"
    by simp
  also have "\<dots> \<longleftrightarrow> c = CHR ''Y'' \<or> c = CHR ''y''"
    by (simp only: of_char_eq_iff)
  finally show ?thesis .
qed

lemma upper_Y: "upper a = ''Y'' \<longleftrightarrow> a = ''Y'' \<or> a = ''y''"
  by (cases a) (auto simp: upper_def upper_char_Y)

section \<open>The footprint of the operations\<close>

lemma map_of_write_entry:
  "map_of (write_entry f p e) q = (if q = p then Some e else map_of f q)"
  by (induction f) (auto simp: write_entry_def)

lemma lookup_root [simp]: "lookup w [] = Some Dir"
  by (simp add: lookup_def)

lemma lookup_write [simp]:
  "lookup (w\<lparr>fs := write_entry (fs w) p e\<rparr>) q =
     (if q = p \<and> p \<noteq> [] \<and> \<not> has_nul p \<and> \<not> too_long p then Some e else lookup w q)"
  by (simp add: lookup_def map_of_write_entry)

lemma lookup_not_refused: "lookup w p = Some e \<Longrightarrow> p \<noteq> [] \<Longrightarrow> \<not> has_nul p \<and> \<not> too_long p"
  by (auto simp: lookup_def split: if_splits)

lemma exists_path_not_refused: "exists_path w (d @ [n]) \<Longrightarrow> \<not> has_nul (d @ [n]) \<and> \<not> too_long (d @ [n])"
  by (auto simp: exists_path_def lookup_def split: if_splits)

lemma path_exists_cases:
  "path_exists (d @ [n]) w =
     (if exists_path w (d @ [n]) then Inr True
      else if \<not> has_nul (d @ [n]) \<and> too_long (d @ [n]) then Inl OSError
      else Inr False)"
  by (auto simp: path_exists_def exists_path_def lookup_def)

lemma lookup_print_line [simp]: "lookup (print_line x w) p = lookup w p"
  by (simp add: lookup_def print_line_def)

lemma lookup_stdin_update [simp]: "lookup (w\<lparr>stdin := s\<rparr>) p = lookup w p"
  by (simp add: lookup_def)

lemma lookup_cursor_update [simp]: "lookup (w\<lparr>cursor := c\<rparr>) p = lookup w p"
  by (simp add: lookup_def)

lemma snd_target_filename: "snd (target_filename F w) = w\<lparr>cursor := cursor w + 10\<rparr>"
  by (simp add: target_filename_def token_hex_def urandom_def Let_def split: prod.splits)

lemma fst_target_filename:
  "fst (target_filename F w) =
     hexlify (map (\<lambda>i. entropy w (cursor w + i)) [0..<10]) @ snd (splitext F)"
  by (simp add: target_filename_def token_hex_def urandom_def Let_def split: prod.splits)

lemma mkdir_Raise: "mkdir p w = Raise e w' \<Longrightarrow> w' = w"
  by (auto simp: mkdir_def split: if_splits)

lemma mkdir_Ok:
  assumes "mkdir p w = Ok w'"
  shows "w' = w \<and> is_dir w p \<or>
         w' = w\<lparr>fs := write_entry (fs w) p Dir\<rparr> \<and> \<not> exists_path w p \<and> is_dir w (butlast p)
           \<and> \<not> has_nul p \<and> \<not> too_long p"
  using assms by (auto simp: mkdir_def split: if_splits)

lemma open_wb_Raise: "open_wb p w = Raise e w' \<Longrightarrow> w' = w"
  by (auto simp: open_wb_def split: if_splits)

lemma open_wb_Ok:
  "open_wb p w = Ok w' \<Longrightarrow>
     w' = w\<lparr>fs := write_entry (fs w) p (File [])\<rparr> \<and> \<not> is_dir w p \<and> is_dir w (butlast p)
       \<and> \<not> has_nul p \<and> \<not> too_long p"
  by (auto simp: open_wb_def split: if_splits)

lemma save_attachment_lookup:
  "q \<noteq> p \<Longrightarrow> lookup (world_of (save_attachment p payload w)) q = lookup w q"
  by (auto simp: save_attachment_def Let_def split: outcome.splits option.splits
      dest!: open_wb_Raise open_wb_Ok)

lemma mkdir_lookup:
  "q \<noteq> p \<Longrightarrow> lookup (world_of (mkdir p w)) q = lookup w q"
  by (cases "mkdir p w") (auto dest!: mkdir_Raise mkdir_Ok)

lemma fields_print_line [simp]:
  "stdin (print_line x w) = stdin w" "entropy (print_line x w) = entropy w"
  "cursor (print_line x w) = cursor w" "cwd (print_line x w) = cwd w"
  "fs (print_line x w) = fs w" "stdout (print_line x w) = stdout w @ [x]"
  by (simp_all add: print_line_def)

lemma exists_path_simps [simp]:
  "exists_path (print_line x w) p = exists_path w p"
  "exists_path (w\<lparr>stdin := s\<rparr>) p = exists_path w p"
  "exists_path (w\<lparr>cursor := c\<rparr>) p = exists_path w p"
  by (simp_all add: exists_path_def)

lemma is_dir_simps [simp]:
  "is_dir (print_line x w) p = is_dir w p"
  "is_dir (w\<lparr>stdin := s\<rparr>) p = is_dir w p"
  "is_dir (w\<lparr>cursor := c\<rparr>) p = is_dir w p"
  by (simp_all add: is_dir_def)

lemma extract_attachment_unnamed:
  "get_filename a = None \<or> get_filename a = Some [] \<Longrightarrow> extract_attachment d a w = Ok w"
  by (auto simp: extract_attachment_def)

lemma extract_attachment_named:
  assumes "get_filename a = Some F" "F \<noteq> []"
  shows "extract_attachment d a w =
     (let name = fst (target_filename F w);
          w2 = print_line (Attachment_found name) (w\<lparr>cursor := cursor w + 10\<rparr>);
          p = d @ [name]
      in (case get_payload a of
            Inl e \<Rightarrow> Raise e w2
          | Inr payload \<Rightarrow>
              if exists_path w p then
                (let w3 = print_line (Overwrite_prompt name) w2
                 in (case stdin w of
                       [] \<Rightarrow> Raise EOFError w3
                     | overwrite # rest \<Rightarrow>
                         if upper overwrite = ''Y''
                         then save_attachment p payload (w3\<lparr>stdin := rest\<rparr>)
                         else Ok (print_line Skipping (w3\<lparr>stdin := rest\<rparr>))))
              else if \<not> has_nul p \<and> too_long p then Raise OSError w2
              else
                (case mkdir d w2 of
                   Raise e w3 \<Rightarrow> Raise e w3
                 | Ok w3 \<Rightarrow> save_attachment p payload w3)))"
proof -
  obtain name w1 where t: "target_filename F w = (name, w1)" by (cases "target_filename F w")
  have w1: "w1 = w\<lparr>cursor := cursor w + 10\<rparr>" using snd_target_filename[of F w] t by simp
  show ?thesis using assms t
    by (auto simp: extract_attachment_def Let_def w1 path_exists_cases
        split: sum.splits list.splits)
qed

lemma extract_attachment_lookup:
  assumes "get_filename a = Some F" "F \<noteq> []" "q \<noteq> d" "q \<noteq> d @ [fst (target_filename F w)]"
  shows "lookup (world_of (extract_attachment d a w)) q = lookup w q"
proof -
  define w2 where
    "w2 = print_line (Attachment_found (fst (target_filename F w))) (w\<lparr>cursor := cursor w + 10\<rparr>)"
  have l2: "lookup w2 q = lookup w q" by (simp add: w2_def)
  have mk: "lookup (world_of (mkdir d w2)) q = lookup w q"
    using assms(3) l2 by (simp add: mkdir_lookup)
  show ?thesis
    using assms(4) mk
    by (cases "mkdir d w2")
      (auto simp: extract_attachment_named[OF assms(1,2)] Let_def save_attachment_lookup
        w2_def[symmetric] l2 split: sum.splits list.splits)
qed

lemma save_attachment_cases:
  "save_attachment p payload w =
     (if has_nul p then Raise ValueError w
      else if too_long p then Raise OSError w
      else if is_dir w p then Raise IsADirectoryError w
      else if \<not> exists_path w (butlast p) then Raise FileNotFoundError w
      else if \<not> is_dir w (butlast p) then Raise NotADirectoryError w
      else (case payload of
              None \<Rightarrow> Raise TypeError (print_line (Saving p) (w\<lparr>fs := write_entry (fs w) p (File [])\<rparr>))
            | Some b \<Rightarrow> Ok ((print_line (Saving p) (w\<lparr>fs := write_entry (fs w) p (File [])\<rparr>))
                  \<lparr>fs := write_entry (write_entry (fs w) p (File [])) p (File b)\<rparr>)))"
  by (auto simp: save_attachment_def open_wb_def Let_def print_line_def split: option.splits)

lemma save_attachment_fields:
  "entropy (world_of (save_attachment p payload w)) = entropy w"
  "cursor (world_of (save_attachment p payload w)) = cursor w"
  "stdin (world_of (save_attachment p payload w)) = stdin w"
  "cwd (world_of (save_attachment p payload w)) = cwd w"
  by (auto simp: save_attachment_cases split: option.splits)

lemma save_attachment_stdout:
  "stdout (world_of (save_attachment p payload w)) = stdout w \<or>
   stdout (world_of (save_attachment p payload w)) = stdout w @ [Saving p]"
  by (auto simp: save_attachment_cases split: option.splits)

lemma save_attachment_target:
  "lookup (world_of (save_attachment p payload w)) p = lookup w p \<or>
   (\<exists>b. lookup (world_of (save_attachment p payload w)) p = Some (File b)) \<and> \<not> is_dir w p"
  by (auto simp: save_attachment_cases lookup_def map_of_write_entry print_line_def split: option.splits)

lemma mkdir_fields:
  "entropy (world_of (mkdir p w)) = entropy w"
  "cursor (world_of (mkdir p w)) = cursor w"
  "stdin (world_of (mkdir p w)) = stdin w"
  "cwd (world_of (mkdir p w)) = cwd w"
  "stdout (world_of (mkdir p w)) = stdout w"
  by (auto simp: mkdir_def)


lemma extract_attachment_entropy:
  "entropy (world_of (extract_attachment d a w)) = entropy w"
proof (cases "get_filename a = None \<or> get_filename a = Some []")
  case True
  then show ?thesis by (simp add: extract_attachment_unnamed)
next
  case False
  then obtain F where F: "get_filename a = Some F" "F \<noteq> []" by auto
  show ?thesis
    by (auto simp: extract_attachment_named[OF F] Let_def save_attachment_fields
        split: sum.splits list.splits outcome.splits dest!: mkdir_Raise mkdir_Ok)
qed

lemma extract_attachment_cursor:
  "cursor w \<le> cursor (world_of (extract_attachment d a w))"
proof (cases "get_filename a = None \<or> get_filename a = Some []")
  case True
  then show ?thesis by (simp add: extract_attachment_unnamed)
next
  case False
  then obtain F where F: "get_filename a = Some F" "F \<noteq> []" by auto
  show ?thesis
    by (auto simp: extract_attachment_named[OF F] Let_def save_attachment_fields
        split: sum.splits list.splits outcome.splits dest!: mkdir_Raise mkdir_Ok)
qed

section \<open>The claims\<close>

subsection \<open>Tokens and changed paths\<close>

lemma is_token_token_at: "is_token (token_at w k)"
  by (simp add: is_token_def token_at_def hexlify_length hexlify_is_hex)


lemma target_filename_token_at:
  "fst (target_filename F w) = token_at w (cursor w) @ snd (splitext F)"
  by (simp add: fst_target_filename token_at_def)

lemma token_no_dot_slash:
  assumes "is_token t"
  shows "t \<noteq> []" "CHR ''.'' \<notin> set t" "CHR ''/'' \<notin> set t"
proof -
  from assms have l: "length t = 20" and h: "\<forall>c\<in>set t. is_hex c"
    by (simp_all add: is_token_def list_all_iff)
  from l show "t \<noteq> []" by auto
  have "\<not> is_hex CHR ''.''" "\<not> is_hex CHR ''/''" by (simp_all add: is_hex_def)
  with h show "CHR ''.'' \<notin> set t" "CHR ''/'' \<notin> set t" by auto
qed

lemma splitext_token_extension:
  "is_token t \<Longrightarrow> splitext (t @ snd (splitext F)) = (t, snd (splitext F))"
  by (rule splitext_token) (simp_all add: token_no_dot_slash snd_splitext_is_extension)

lemma extract_attachment_changes:
  assumes "lookup (world_of (extract_attachment d a w)) q \<noteq> lookup w q" "q \<noteq> d"
  shows "\<exists>F. get_filename a = Some F \<and> F \<noteq> [] \<and> q = d @ [token_at w (cursor w) @ snd (splitext F)]"
proof (cases "get_filename a = None \<or> get_filename a = Some []")
  case True
  then have "extract_attachment d a w = Ok w" by (rule extract_attachment_unnamed)
  with assms(1) show ?thesis by simp
next
  case False
  then obtain F where F: "get_filename a = Some F" "F \<noteq> []"
    by (cases "get_filename a") auto
  have "q = d @ [fst (target_filename F w)]"
  proof (rule ccontr)
    assume "q \<noteq> d @ [fst (target_filename F w)]"
    from extract_attachment_lookup[OF F assms(2) this] assms(1) show False by simp
  qed
  with F show ?thesis by (simp add: target_filename_token_at)
qed

lemma token_at_cong: "entropy w1 = entropy w \<Longrightarrow> token_at w1 k = token_at w k"
  by (simp add: token_at_def)

lemma for_attachments_changes:
  assumes "lookup (world_of (for_attachments d as w)) q \<noteq> lookup w q" "q \<noteq> d"
  shows "\<exists>a\<in>set as. \<exists>F k. get_filename a = Some F \<and> F \<noteq> [] \<and> cursor w \<le> k
           \<and> q = d @ [token_at w k @ snd (splitext F)]"
  using assms(1)
proof (induction as arbitrary: w)
  case Nil
  then show ?case by simp
next
  case (Cons a as)
  define w1 where "w1 = world_of (extract_attachment d a w)"
  have e1: "entropy w1 = entropy w" and c1: "cursor w \<le> cursor w1"
    by (simp_all add: w1_def extract_attachment_entropy extract_attachment_cursor)
  show ?case
  proof (cases "lookup w1 q = lookup w q")
    case False
    then have "lookup (world_of (extract_attachment d a w)) q \<noteq> lookup w q"
      by (simp add: w1_def)
    from extract_attachment_changes[OF this assms(2)] obtain F where
      "get_filename a = Some F" "F \<noteq> []" "q = d @ [token_at w (cursor w) @ snd (splitext F)]"
      by blast
    then have "\<exists>F k. get_filename a = Some F \<and> F \<noteq> [] \<and> cursor w \<le> k
           \<and> q = d @ [token_at w k @ snd (splitext F)]"
      by (intro exI[of _ F] exI[of _ "cursor w"]) simp
    then show ?thesis by simp
  next
    case True
    have step: "extract_attachment d a w = Ok w1"
    proof (cases "extract_attachment d a w")
      case (Ok w')
      then show ?thesis by (simp add: w1_def)
    next
      case (Raise e w')
      with Cons.prems True show ?thesis by (simp add: w1_def)
    qed
    with Cons.prems True have "lookup (world_of (for_attachments d as w1)) q \<noteq> lookup w1 q"
      by simp
    from Cons.IH[OF this] obtain a' F k where
      a': "a' \<in> set as" "get_filename a' = Some F" "F \<noteq> []" "cursor w1 \<le> k"
      "q = d @ [token_at w1 k @ snd (splitext F)]" by blast
    have "q = d @ [token_at w k @ snd (splitext F)]"
      using a'(5) token_at_cong[OF e1, of k] by simp
    moreover have "cursor w \<le> k" using c1 a'(4) by simp
    ultimately have "\<exists>F k. get_filename a' = Some F \<and> F \<noteq> [] \<and> cursor w \<le> k
           \<and> q = d @ [token_at w k @ snd (splitext F)]"
      using a'(2,3) by blast
    with a'(1) show ?thesis by auto
  qed
qed

lemma extract_attachments_parsed:
  assumes "lookup w file = Some (File content)"
    and "message_from_file content = Inr email_message"
  shows "extract_attachments message_from_file file dest w =
      (if filter is_attachment email_message = []
       then Ok (print_line No_attachments_found (print_line (Processing file) w))
       else for_attachments dest (filter is_attachment email_message)
              (print_line (Processing file) w))"
proof -
  from assms(1) have "file \<noteq> []" by auto
  with assms(1) have "\<not> has_nul file \<and> \<not> too_long file" by (rule lookup_not_refused)
  with assms show ?thesis by (simp add: extract_attachments_def Let_def)
qed

subsection \<open>The steps of a run\<close>

lemma outcome_Ok: "is_Ok r \<Longrightarrow> r = Ok (world_of r)"
  by (cases r) simp_all

lemma outcome_Raise: "error_of r = Some e \<Longrightarrow> r = Raise e (world_of r)"
  by (cases r) simp_all

lemma for_attachments_append:
  "for_attachments d (pre @ rest) w =
     (case for_attachments d pre w of
        Raise e w1 \<Rightarrow> Raise e w1
      | Ok w1 \<Rightarrow> for_attachments d rest w1)"
  by (induction pre arbitrary: w) (auto split: outcome.splits)

lemma for_attachments_reaches:
  assumes "for_attachments d pre w = Ok w1"
  shows "for_attachments d (pre @ a # post) w =
     (case extract_attachment d a w1 of
        Raise e w2 \<Rightarrow> Raise e w2
      | Ok w2 \<Rightarrow> for_attachments d post w2)"
  by (simp add: for_attachments_append assms)

lemma extract_attachments_reaches:
  assumes "lookup w file = Some (File content)"
    and "message_from_file content = Inr email_message"
    and "filter is_attachment email_message = pre @ a # post"
    and "for_attachments dest pre (print_line (Processing file) w) = Ok w1"
  shows "extract_attachments message_from_file file dest w =
     (case extract_attachment dest a w1 of
        Raise e w2 \<Rightarrow> Raise e w2
      | Ok w2 \<Rightarrow> for_attachments dest post w2)"
proof -
  have "extract_attachments message_from_file file dest w =
      (if filter is_attachment email_message = []
       then Ok (print_line No_attachments_found (print_line (Processing file) w))
       else for_attachments dest (filter is_attachment email_message)
              (print_line (Processing file) w))"
    using assms(1,2) by (rule extract_attachments_parsed)
  then have "extract_attachments message_from_file file dest w =
      for_attachments dest (pre @ a # post) (print_line (Processing file) w)"
    by (simp add: assms(3))
  then show ?thesis by (simp only: for_attachments_reaches[OF assms(4)])
qed


lemma for_attachments_entropy:
  "entropy (world_of (for_attachments d as w)) = entropy w"
proof (induction as arbitrary: w)
  case Nil
  show ?case by simp
next
  case (Cons a as)
  show ?case
    using Cons.IH[of "world_of (extract_attachment d a w)"] extract_attachment_entropy[of d a w]
    by (cases "extract_attachment d a w") simp_all
qed

lemma for_attachments_cursor:
  "cursor w \<le> cursor (world_of (for_attachments d as w))"
proof (induction as arbitrary: w)
  case Nil
  show ?case by simp
next
  case (Cons a as)
  show ?case
    using Cons.IH[of "world_of (extract_attachment d a w)"] extract_attachment_cursor[of w d a]
    by (cases "extract_attachment d a w") simp_all
qed

lemma extract_attachment_cursor_named:
  assumes "get_filename a = Some F" "F \<noteq> []"
  shows "cursor (world_of (extract_attachment d a w)) = cursor w + 10"
  by (auto simp: extract_attachment_named[OF assms] Let_def save_attachment_fields
      split: sum.splits list.splits outcome.splits dest!: mkdir_Raise mkdir_Ok)

subsection \<open>C1: the name of a written file\<close>

lemma save_attachment_written:
  assumes "lookup (world_of (save_attachment p payload w)) p \<noteq> lookup w p"
  shows "lookup (world_of (save_attachment p payload w)) p =
           Some (File (case payload of None \<Rightarrow> [] | Some b \<Rightarrow> b))"
  using assms
  by (auto simp: save_attachment_cases lookup_def map_of_write_entry print_line_def
      split: option.splits if_splits)

lemma extract_attachment_written:
  assumes "get_filename a = Some F" and "F \<noteq> []"
    and "lookup (world_of (extract_attachment d a w)) q \<noteq> lookup w q" and "q \<noteq> d"
  shows "q = d @ [token_at w (cursor w) @ snd (splitext F)] \<and>
         (\<exists>payload. get_payload a = Inr payload \<and>
            lookup (world_of (extract_attachment d a w)) q =
              Some (File (case payload of None \<Rightarrow> [] | Some b \<Rightarrow> b)))"
proof -
  define name where "name = fst (target_filename F w)"
  define w2 where "w2 = print_line (Attachment_found name) (w\<lparr>cursor := cursor w + 10\<rparr>)"
  define p where "p = d @ [name]"
  have q: "q = p"
  proof (rule ccontr)
    assume "q \<noteq> p"
    then have "q \<noteq> d @ [fst (target_filename F w)]" by (simp add: p_def name_def)
    from extract_attachment_lookup[OF assms(1,2,4) this] assms(3) show False by simp
  qed
  have pd: "p \<noteq> d" by (simp add: p_def)
  have l2: "lookup w2 p = lookup w p" by (simp add: w2_def)
  note run = extract_attachment_named[OF assms(1,2), of d w, unfolded Let_def,
      folded name_def, folded w2_def, folded p_def]
  have changed: "lookup (world_of (extract_attachment d a w)) p \<noteq> lookup w p"
    using assms(3) q by simp
  have "\<exists>payload. get_payload a = Inr payload \<and>
            lookup (world_of (extract_attachment d a w)) p =
              Some (File (case payload of None \<Rightarrow> [] | Some b \<Rightarrow> b))"
  proof (cases "get_payload a")
    case (Inl e)
    with run changed l2 show ?thesis by simp
  next
    case (Inr payload)
    have "lookup (world_of (extract_attachment d a w)) p =
              Some (File (case payload of None \<Rightarrow> [] | Some b \<Rightarrow> b))"
    proof (cases "exists_path w p")
      case True
      show ?thesis
      proof (cases "stdin w")
        case Nil
        with run Inr True changed l2 show ?thesis by simp
      next
        case (Cons answer rest)
        define w4 where "w4 = (print_line (Overwrite_prompt name) w2)\<lparr>stdin := rest\<rparr>"
        have l4: "lookup w4 p = lookup w p" by (simp add: w4_def l2)
        show ?thesis
        proof (cases "upper answer = ''Y''")
          case False
          with run Inr True Cons changed l2 show ?thesis by simp
        next
          case yes: True
          have res: "extract_attachment d a w = save_attachment p payload w4"
            using run Inr True Cons yes by (simp add: w4_def)
          with changed l4 have "lookup (world_of (save_attachment p payload w4)) p \<noteq> lookup w4 p"
            by simp
          from save_attachment_written[OF this] res show ?thesis by simp
        qed
      qed
    next
      case False
      show ?thesis
      proof (cases "\<not> has_nul p \<and> too_long p")
        case True
        with run Inr False changed l2 show ?thesis by simp
      next
        case valid: False
        show ?thesis
        proof (cases "mkdir d w2")
          case (Raise e w3)
          then have "w3 = w2" by (rule mkdir_Raise)
          with run Inr False valid Raise changed l2 show ?thesis by simp
        next
          case (Ok w3)
          have "lookup (world_of (mkdir d w2)) p = lookup w2 p" using pd by (rule mkdir_lookup)
          with Ok l2 have l3: "lookup w3 p = lookup w p" by simp
          have res: "extract_attachment d a w = save_attachment p payload w3"
            using run Inr False valid Ok by simp
          with changed l3 have "lookup (world_of (save_attachment p payload w3)) p \<noteq> lookup w3 p"
            by simp
          from save_attachment_written[OF this] res show ?thesis by simp
        qed
      qed
    qed
    with Inr show ?thesis by blast
  qed
  with q show ?thesis by (simp add: p_def name_def target_filename_token_at)
qed

lemma has_nul_append: "has_nul (d @ [n]) \<longleftrightarrow> has_nul d \<or> CHR 0x00 \<in> set n"
  by (auto simp: has_nul_def list_ex_iff)

lemma too_long_append: "too_long (d @ [n]) \<longleftrightarrow> too_long d \<or> name_max < length n"
  by (auto simp: too_long_def list_ex_iff)

lemma extract_attachment_fresh:
  assumes "get_filename a = Some F" and "F \<noteq> []" and "get_payload a = Inr (Some b)"
    and "name = token_at w (cursor w) @ snd (splitext F)"
    and "\<not> exists_path w (d @ [name])" and "is_dir w d"
    and "\<not> has_nul (d @ [name])" and "\<not> too_long (d @ [name])"
  shows "is_Ok (extract_attachment d a w) \<and>
         lookup (world_of (extract_attachment d a w)) (d @ [name]) = Some (File b)"
proof -
  define w2 where "w2 = print_line (Attachment_found name) (w\<lparr>cursor := cursor w + 10\<rparr>)"
  have n: "name = fst (target_filename F w)" by (simp add: assms(4) target_filename_token_at)
  have d2: "is_dir w2 d" using assms(6) by (simp add: w2_def)
  have valid: "\<not> has_nul d" "\<not> too_long d"
    using assms(7,8) by (simp_all add: has_nul_append too_long_append)
  have mk: "mkdir d w2 = Ok w2" using d2 valid by (simp add: mkdir_def)
  have res: "extract_attachment d a w = save_attachment (d @ [name]) (Some b) w2"
    using assms(3,5,7,8) mk
    by (simp add: extract_attachment_named[OF assms(1,2)] Let_def n[symmetric] w2_def[symmetric])
  have none: "lookup w2 (d @ [name]) = None" using assms(5) by (simp add: w2_def exists_path_def)
  then have nd: "\<not> is_dir w2 (d @ [name])" by (simp add: is_dir_def)
  from d2 have ex: "exists_path w2 d" by (simp add: is_dir_def exists_path_def)
  show ?thesis
    using assms(7,8) nd ex d2
    by (simp add: res save_attachment_cases lookup_def map_of_write_entry print_line_def)
qed

text \<open>
  Claim C1. Take any attachment \<open>a\<close> of a parsed message, with the filename \<open>F\<close>, that
  a run of \<open>extract_attachments\<close> reaches: the attachments before it have been processed
  without an exception, which has led to the world \<open>w1\<close>. The run goes on with the step
  of \<open>a\<close> in \<open>w1\<close>. The token of that step is the \<open>hexlify\<close> of the next ten unread random
  bytes, twenty lower-case hexadecimal digits; those bytes had not been read when the run
  began, and the step moves past them. Whatever the step changes in the filesystem, other
  than the destination directory itself, is the one path \<open>destination/token+extension\<close>,
  where the extension is the one \<open>os.path.splitext\<close> gives for the filename \<open>F\<close> of this
  very attachment, and the file there then holds the decoded payload of this attachment
  (no bytes when the payload is \<open>None\<close>). Splitting the written name gives back exactly
  the token as the base name and the extension of \<open>F\<close>. When the payload is there, the
  target does not exist yet, the destination is a directory and the operating system
  accepts the name, the step does write that file.

  In the witness the message has the attachments \<open>report.pdf\<close> and \<open>photo.jpg\<close>: the
  second one is written to \<open>out/0a0b0c0d0e0f10111213.jpg\<close> with its own payload, the
  first one to \<open>out/00010203040506070809.pdf\<close>, whose extension is \<open>.pdf\<close> and whose base
  name is a token different from \<open>report\<close>.
\<close>

theorem written_file_name:
  assumes "lookup w file = Some (File content)"
    and "message_from_file content = Inr email_message"
    and "filter is_attachment email_message = pre @ a # post"
    and "for_attachments dest pre (print_line (Processing file) w) = Ok w1"
    and "get_filename a = Some F" and "F \<noteq> []"
    and "token = token_at w1 (cursor w1)"
    and "target = dest @ [token @ snd (splitext F)]"
    and "step = extract_attachment dest a w1"
  shows "extract_attachments message_from_file file dest w =
           (case step of Raise e w2 \<Rightarrow> Raise e w2 | Ok w2 \<Rightarrow> for_attachments dest post w2) \<and>
         is_token token \<and>
         splitext (token @ snd (splitext F)) = (token, snd (splitext F)) \<and>
         entropy w1 = entropy w \<and> cursor w \<le> cursor w1 \<and>
         cursor (world_of step) = cursor w1 + 10 \<and>
         (\<forall>q. q \<noteq> dest \<and> lookup (world_of step) q \<noteq> lookup w1 q \<longrightarrow>
            q = target \<and>
            (\<exists>payload. get_payload a = Inr payload \<and>
               lookup (world_of step) target =
                 Some (File (case payload of None \<Rightarrow> [] | Some b \<Rightarrow> b)))) \<and>
         (\<forall>b. get_payload a = Inr (Some b) \<and> \<not> exists_path w1 target \<and> is_dir w1 dest \<and>
               \<not> has_nul target \<and> \<not> too_long target \<longrightarrow>
            is_Ok step \<and> lookup (world_of step) target = Some (File b))"
proof -
  define w0 where "w0 = print_line (Processing file) w"
  have run: "extract_attachments message_from_file file dest w =
           (case step of Raise e w2 \<Rightarrow> Raise e w2 | Ok w2 \<Rightarrow> for_attachments dest post w2)"
    unfolding assms(9) using assms(1,2,3,4) by (rule extract_attachments_reaches)
  have t: "is_token token" unfolding assms(7) by (rule is_token_token_at)
  have s: "splitext (token @ snd (splitext F)) = (token, snd (splitext F))"
    using t by (rule splitext_token_extension)
  have w1: "w1 = world_of (for_attachments dest pre w0)" using assms(4) by (simp add: w0_def)
  have e: "entropy w1 = entropy w" by (simp add: w1 for_attachments_entropy w0_def)
  have "cursor w0 \<le> cursor w1" unfolding w1 by (rule for_attachments_cursor)
  then have c: "cursor w \<le> cursor w1" by (simp add: w0_def)
  have c2: "cursor (world_of step) = cursor w1 + 10"
    unfolding assms(9) using assms(5,6) by (rule extract_attachment_cursor_named)
  have ch: "\<forall>q. q \<noteq> dest \<and> lookup (world_of step) q \<noteq> lookup w1 q \<longrightarrow>
            q = target \<and>
            (\<exists>payload. get_payload a = Inr payload \<and>
               lookup (world_of step) target =
                 Some (File (case payload of None \<Rightarrow> [] | Some b \<Rightarrow> b)))"
  proof (intro allI impI)
    fix q
    assume h: "q \<noteq> dest \<and> lookup (world_of step) q \<noteq> lookup w1 q"
    then have "lookup (world_of (extract_attachment dest a w1)) q \<noteq> lookup w1 q" and "q \<noteq> dest"
      by (simp_all add: assms(9))
    from extract_attachment_written[OF assms(5,6) this]
    show "q = target \<and>
            (\<exists>payload. get_payload a = Inr payload \<and>
               lookup (world_of step) target =
                 Some (File (case payload of None \<Rightarrow> [] | Some b \<Rightarrow> b)))"
      by (auto simp: assms(7,8,9))
  qed
  have fr: "\<forall>b. get_payload a = Inr (Some b) \<and> \<not> exists_path w1 target \<and> is_dir w1 dest \<and>
               \<not> has_nul target \<and> \<not> too_long target \<longrightarrow>
            is_Ok step \<and> lookup (world_of step) target = Some (File b)"
  proof (intro allI impI)
    fix b
    assume h: "get_payload a = Inr (Some b) \<and> \<not> exists_path w1 target \<and> is_dir w1 dest \<and>
               \<not> has_nul target \<and> \<not> too_long target"
    have "is_Ok (extract_attachment dest a w1) \<and>
         lookup (world_of (extract_attachment dest a w1)) (dest @ [token @ snd (splitext F)])
           = Some (File b)"
      using assms(5,6) h unfolding assms(8)
      by (intro extract_attachment_fresh[where F = F]) (simp_all add: assms(7))
    then show "is_Ok step \<and> lookup (world_of step) target = Some (File b)"
      by (simp add: assms(8,9))
  qed
  from run t s e c c2 ch fr show ?thesis by blast
qed

theorem written_file_name_witness:
  "lookup (counting_world []) [''mail'', ''m.eml''] = Some (File [1, 2]) \<and>
   is_Ok (for_attachments [''out''] [report_pdf]
            (print_line (Processing [''mail'', ''m.eml'']) (counting_world []))) \<and>
   token_at (world_of (for_attachments [''out''] [report_pdf]
            (print_line (Processing [''mail'', ''m.eml'']) (counting_world []))))
      (cursor (world_of (for_attachments [''out''] [report_pdf]
            (print_line (Processing [''mail'', ''m.eml'']) (counting_world [])))))
     = ''0a0b0c0d0e0f10111213'' \<and>
   snd (splitext ''photo.jpg'') = ''.jpg'' \<and>
   is_token ''0a0b0c0d0e0f10111213'' \<and>
   splitext ''0a0b0c0d0e0f10111213.jpg'' = (''0a0b0c0d0e0f10111213'', ''.jpg'') \<and>
   lookup (world_of (extract_attachment [''out''] photo_jpg
      (world_of (for_attachments [''out''] [report_pdf]
            (print_line (Processing [''mail'', ''m.eml'']) (counting_world []))))))
      [''out'', ''0a0b0c0d0e0f10111213.jpg''] = Some (File [4, 5]) \<and>
   lookup (world_of (extract_attachments two_parser [''mail'', ''m.eml''] [''out'']
      (counting_world []))) [''out'', ''0a0b0c0d0e0f10111213.jpg''] = Some (File [4, 5]) \<and>
   lookup (world_of (extract_attachments two_parser [''mail'', ''m.eml''] [''out'']
      (counting_world []))) [''out'', ''00010203040506070809.pdf''] = Some (File [7, 8, 9]) \<and>
   splitext ''00010203040506070809.pdf'' = (''00010203040506070809'', ''.pdf'') \<and>
   ''00010203040506070809'' \<noteq> ''report''"
proof -
  let ?file = "[''mail'', ''m.eml'']"
  let ?w = "counting_world []"
  let ?pre = "for_attachments [''out''] [report_pdf] (print_line (Processing ?file) ?w)"
  let ?w1 = "world_of ?pre"
  let ?token = "''0a0b0c0d0e0f10111213''"
  let ?target = "[''out'', ''0a0b0c0d0e0f10111213.jpg'']"
  let ?step = "extract_attachment [''out''] photo_jpg ?w1"
  have h1: "lookup ?w ?file = Some (File [1, 2])" by code_simp
  have h2: "two_parser [1, 2] = Inr [report_pdf, photo_jpg]" by (simp add: two_parser_def)
  have h3: "filter is_attachment [report_pdf, photo_jpg] = [report_pdf] @ photo_jpg # []"
    by (simp add: report_pdf_def photo_jpg_def)
  have ok: "is_Ok ?pre" by code_simp
  have h4: "?pre = Ok ?w1" using ok by (rule outcome_Ok)
  have h5: "get_filename photo_jpg = Some ''photo.jpg''" by (simp add: photo_jpg_def)
  have h6: "''photo.jpg'' \<noteq> []" by simp
  have h7: "?token = token_at ?w1 (cursor ?w1)" by code_simp
  have ext: "snd (splitext ''photo.jpg'') = ''.jpg''" by code_simp
  have h8: "?target = [''out''] @ [?token @ snd (splitext ''photo.jpg'')]" by (simp add: ext)
  have h9: "?step = extract_attachment [''out''] photo_jpg ?w1" by simp
  note inst = written_file_name[where message_from_file = two_parser, OF h1 h2 h3 h4 h5 h6 h7 h8 h9]
  have p: "get_payload photo_jpg = Inr (Some [4, 5])" by (simp add: photo_jpg_def)
  have ne: "\<not> exists_path ?w1 ?target" by code_simp
  have dd: "is_dir ?w1 [''out'']" by code_simp
  have nn: "\<not> has_nul ?target" by code_simp
  have nl: "\<not> too_long ?target" by code_simp
  from inst p ne dd nn nl have st: "is_Ok ?step" "lookup (world_of ?step) ?target = Some (File [4, 5])"
    by blast+
  from inst have tk: "is_token ?token"
    and sp: "splitext (?token @ snd (splitext ''photo.jpg'')) = (?token, snd (splitext ''photo.jpg''))"
    and run: "extract_attachments two_parser ?file [''out''] ?w =
           (case ?step of Raise e w2 \<Rightarrow> Raise e w2 | Ok w2 \<Rightarrow> for_attachments [''out''] [] w2)"
    by blast+
  from run outcome_Ok[OF st(1)] have "extract_attachments two_parser ?file [''out''] ?w = ?step"
    by (cases ?step) simp_all
  with st(2) have fin: "lookup (world_of (extract_attachments two_parser ?file [''out''] ?w)) ?target
      = Some (File [4, 5])" by simp
  have first: "lookup (world_of (extract_attachments two_parser ?file [''out''] ?w))
      [''out'', ''00010203040506070809.pdf''] = Some (File [7, 8, 9])" by code_simp
  have sp1: "splitext ''00010203040506070809.pdf'' = (''00010203040506070809'', ''.pdf'')"
    by code_simp
  from sp have sp2: "splitext ''0a0b0c0d0e0f10111213.jpg'' = (?token, ''.jpg'')" by (simp add: ext)
  from h1 ok h7 ext tk sp2 st(2) fin first sp1 show ?thesis by simp
qed

text \<open>
  The paths that a whole run changes: each of them, other than the destination directory
  itself, is \<open>destination/token+extension\<close> for an attachment of the message with a
  filename, a token of random bytes that had not been read when the run began, and the
  extension of that filename.
\<close>

theorem run_changes_only_targets:
  assumes "lookup w file = Some (File content)"
    and "message_from_file content = Inr email_message"
    and "lookup (world_of (extract_attachments message_from_file file dest w)) q \<noteq> lookup w q"
    and "q \<noteq> dest"
  shows "\<exists>a\<in>set email_message. \<exists>F token.
           is_attachment a \<and> get_filename a = Some F \<and> F \<noteq> [] \<and>
           q = dest @ [token @ snd (splitext F)] \<and>
           (\<exists>k. cursor w \<le> k \<and> token = token_at w k) \<and>
           is_token token \<and>
           splitext (token @ snd (splitext F)) = (token, snd (splitext F))"
proof -
  define w1 where "w1 = print_line (Processing file) w"
  define as where "as = filter is_attachment email_message"
  have run: "extract_attachments message_from_file file dest w =
      (if as = [] then Ok (print_line No_attachments_found w1) else for_attachments dest as w1)"
    unfolding w1_def as_def using assms(1,2) by (rule extract_attachments_parsed)
  have l1: "lookup w1 q = lookup w q" by (simp add: w1_def)
  have ne: "as \<noteq> []"
  proof
    assume "as = []"
    with run have "extract_attachments message_from_file file dest w =
        Ok (print_line No_attachments_found w1)" by simp
    with assms(3) l1 show False by simp
  qed
  with run have "extract_attachments message_from_file file dest w = for_attachments dest as w1"
    by simp
  with assms(3) l1 have "lookup (world_of (for_attachments dest as w1)) q \<noteq> lookup w1 q"
    by simp
  from for_attachments_changes[OF this assms(4)] obtain a F k where
    a: "a \<in> set as" "get_filename a = Some F" "F \<noteq> []"
       "q = dest @ [token_at w1 k @ snd (splitext F)]" and k1: "cursor w1 \<le> k" by blast
  have tk: "token_at w1 k = token_at w k" by (simp add: token_at_def w1_def)
  have k: "\<exists>j. cursor w \<le> j \<and> token_at w k = token_at w j"
    using k1 by (auto simp: w1_def)
  have t: "is_token (token_at w k)" by (rule is_token_token_at)
  have s: "splitext (token_at w k @ snd (splitext F)) = (token_at w k, snd (splitext F))"
    by (rule splitext_token_extension[OF t])
  from a(1) have m: "a \<in> set email_message" "is_attachment a" by (simp_all add: as_def)
  have "\<exists>F token.
           is_attachment a \<and> get_filename a = Some F \<and> F \<noteq> [] \<and>
           q = dest @ [token @ snd (splitext F)] \<and>
           (\<exists>k. cursor w \<le> k \<and> token = token_at w k) \<and>
           is_token token \<and>
           splitext (token @ snd (splitext F)) = (token, snd (splitext F))"
    using m(2) a(2,3) a(4)[unfolded tk] k t s
    by (intro exI[of _ F] exI[of _ "token_at w k"]) simp
  with m(1) show ?thesis by blast
qed

theorem run_changes_only_targets_witness:
  "lookup \<lparr>fs = [([''mail''], Dir), ([''mail'', ''m.eml''], File [1, 2]), ([''out''], Dir)],
         cwd = [''mail''], stdin = [], entropy = (\<lambda>i. 0), cursor = 0, stdout = []\<rparr>
      [''mail'', ''m.eml''] = Some (File [1, 2]) \<and>
   lookup (world_of (extract_attachments
       (\<lambda>c. Inr [\<lparr>is_attachment = True, get_filename = Some ''report.pdf'',
            get_payload = Inr (Some [7, 8, 9])\<rparr>]) [''mail'', ''m.eml''] [''out'']
       \<lparr>fs = [([''mail''], Dir), ([''mail'', ''m.eml''], File [1, 2]), ([''out''], Dir)],
         cwd = [''mail''], stdin = [], entropy = (\<lambda>i. 0), cursor = 0, stdout = []\<rparr>))
      [''out'', ''00000000000000000000.pdf''] = Some (File [7, 8, 9]) \<and>
   lookup \<lparr>fs = [([''mail''], Dir), ([''mail'', ''m.eml''], File [1, 2]), ([''out''], Dir)],
         cwd = [''mail''], stdin = [], entropy = (\<lambda>i. 0), cursor = 0, stdout = []\<rparr>
      [''out'', ''00000000000000000000.pdf''] = None \<and>
   (\<exists>token. [''out'', ''00000000000000000000.pdf''] = [''out''] @ [token @ snd (splitext ''report.pdf'')] \<and>
      is_token token \<and> token \<noteq> ''report'' \<and>
      splitext (token @ snd (splitext ''report.pdf'')) = (token, ''.pdf''))"
proof -
  let ?w = "\<lparr>fs = [([''mail''], Dir), ([''mail'', ''m.eml''], File [1, 2]), ([''out''], Dir)],
         cwd = [''mail''], stdin = [], entropy = (\<lambda>i. 0), cursor = 0, stdout = []\<rparr>"
  let ?m = "[\<lparr>is_attachment = True, get_filename = Some ''report.pdf'',
            get_payload = Inr (Some [7, 8, 9 :: byte])\<rparr>]"
  let ?q = "[''out'', ''00000000000000000000.pdf'']"
  have h1: "lookup ?w [''mail'', ''m.eml''] = Some (File [1, 2])" by code_simp
  have h2: "(\<lambda>c::byte list. (Inr ?m :: error + message)) [1, 2] = Inr ?m" by simp
  have after: "lookup (world_of (extract_attachments (\<lambda>c. Inr ?m) [''mail'', ''m.eml''] [''out''] ?w)) ?q
      = Some (File [7, 8, 9])" by code_simp
  have before: "lookup ?w ?q = None" by code_simp
  have h3: "lookup (world_of (extract_attachments (\<lambda>c. Inr ?m) [''mail'', ''m.eml''] [''out''] ?w)) ?q
      \<noteq> lookup ?w ?q" by (simp only: after before) simp
  have h4: "?q \<noteq> [''out'']" by simp
  have ext: "snd (splitext ''report.pdf'') = ''.pdf''" by code_simp
  from run_changes_only_targets[OF h1 h2 h3 h4] obtain token where
    t: "?q = [''out''] @ [token @ snd (splitext ''report.pdf'')]" "is_token token"
       "splitext (token @ snd (splitext ''report.pdf'')) = (token, snd (splitext ''report.pdf''))"
    by auto
  from t(2) have "token \<noteq> ''report''" by (auto simp: is_token_def)
  with t ext have "\<exists>token. ?q = [''out''] @ [token @ snd (splitext ''report.pdf'')] \<and>
      is_token token \<and> token \<noteq> ''report'' \<and>
      splitext (token @ snd (splitext ''report.pdf'')) = (token, ''.pdf'')" by auto
  with h1 after before show ?thesis by blast
qed

subsection \<open>C10: the extension is taken as it is\<close>




subsection \<open>C3: the answer to the overwrite prompt\<close>


lemma lookup_prompted [simp]: "lookup (prompted name w) p = lookup w p"
  by (simp add: prompted_def)

lemma extract_attachment_prompt:
  assumes "get_filename a = Some F" and "F \<noteq> []" and "get_payload a = Inr payload"
    and "exists_path w (d @ [fst (target_filename F w)])"
    and "stdin w = answer # rest"
  shows "extract_attachment d a w =
           (if answer = ''Y'' \<or> answer = ''y''
            then save_attachment (d @ [fst (target_filename F w)]) payload
                   (prompted (fst (target_filename F w)) w)
            else Ok (print_line Skipping (prompted (fst (target_filename F w)) w)))"
  using assms(3,4,5)
  by (simp add: extract_attachment_named[OF assms(1,2)] Let_def prompted_def upper_Y)

lemma save_attachment_overwrites:
  assumes "is_file w p" and "is_dir w (butlast p)"
  shows "\<exists>w'. save_attachment p (Some b) w = Ok w' \<and> lookup w' p = Some (File b) \<and>
           (\<forall>q. q \<noteq> p \<longrightarrow> lookup w' q = lookup w q)"
proof -
  from assms(1) have nd: "\<not> is_dir w p" "p \<noteq> []"
    by (auto simp: is_file_def is_dir_def split: option.splits entry.splits)
  from assms(1) nd(2) have valid: "\<not> has_nul p" "\<not> too_long p"
    by (auto simp: is_file_def lookup_def split: option.splits if_splits)
  from assms(2) have ex: "exists_path w (butlast p)" by (simp add: is_dir_def exists_path_def)
  show ?thesis using nd ex assms(2) valid
    by (simp add: save_attachment_cases lookup_def map_of_write_entry print_line_def)
qed

text \<open>
  Claim C3. When the target \<open>destination/name\<close> exists, the step prints the name of the
  target and the prompt and reads one line of the standard input before anything else
  happens. Exactly the answers \<open>Y\<close> and \<open>y\<close> pass the target and the decoded payload to
  \<open>save_attachment\<close>; every other answer prints the skipping line and leaves the filesystem
  as it was. An accepted overwrite of a regular file in an existing directory succeeds,
  and the file then holds the decoded payload. In the witness the answer \<open>y\<close> overwrites
  the file and the answer \<open>yes\<close> declines.
\<close>

theorem overwrite_prompt_answer:
  assumes "get_filename a = Some F" and "F \<noteq> []" and "get_payload a = Inr payload"
    and "name = fst (target_filename F w)"
    and "exists_path w (d @ [name])"
    and "stdin w = answer # rest"
  shows "extract_attachment d a w =
           (if answer = ''Y'' \<or> answer = ''y''
            then save_attachment (d @ [name]) payload (prompted name w)
            else Ok (print_line Skipping (prompted name w))) \<and>
         stdout (prompted name w) = stdout w @ [Attachment_found name, Overwrite_prompt name] \<and>
         stdin (prompted name w) = rest \<and>
         fs (prompted name w) = fs w \<and>
         (answer \<noteq> ''Y'' \<and> answer \<noteq> ''y'' \<longrightarrow>
            fs (world_of (extract_attachment d a w)) = fs w) \<and>
         ((answer = ''Y'' \<or> answer = ''y'') \<and> is_file w (d @ [name]) \<and> is_dir w d \<longrightarrow>
            (\<forall>b. payload = Some b \<longrightarrow>
               is_Ok (extract_attachment d a w) \<and>
               lookup (world_of (extract_attachment d a w)) (d @ [name]) = Some (File b)))"
proof -
  have eq: "extract_attachment d a w =
           (if answer = ''Y'' \<or> answer = ''y''
            then save_attachment (d @ [name]) payload (prompted name w)
            else Ok (print_line Skipping (prompted name w)))"
    unfolding assms(4) using assms(1,2,3) assms(5)[unfolded assms(4)] assms(6)
    by (rule extract_attachment_prompt)
  have out: "stdout (prompted name w) = stdout w @ [Attachment_found name, Overwrite_prompt name]"
    by (simp add: prompted_def)
  have inp: "stdin (prompted name w) = rest" by (simp add: prompted_def assms(6))
  have fsp: "fs (prompted name w) = fs w" by (simp add: prompted_def)
  have dec: "answer \<noteq> ''Y'' \<and> answer \<noteq> ''y'' \<longrightarrow> fs (world_of (extract_attachment d a w)) = fs w"
    by (simp add: eq fsp)
  have acc: "(answer = ''Y'' \<or> answer = ''y'') \<and> is_file w (d @ [name]) \<and> is_dir w d \<longrightarrow>
            (\<forall>b. payload = Some b \<longrightarrow>
               is_Ok (extract_attachment d a w) \<and>
               lookup (world_of (extract_attachment d a w)) (d @ [name]) = Some (File b))"
  proof (intro impI allI)
    fix b
    assume h: "(answer = ''Y'' \<or> answer = ''y'') \<and> is_file w (d @ [name]) \<and> is_dir w d"
      and p: "payload = Some b"
    have f: "is_file (prompted name w) (d @ [name])"
      using h by (simp add: is_file_def)
    have dd: "is_dir (prompted name w) (butlast (d @ [name]))"
      using h by (simp add: is_dir_def)
    from save_attachment_overwrites[OF f dd, of b] obtain w' where
      "save_attachment (d @ [name]) (Some b) (prompted name w) = Ok w'"
      "lookup w' (d @ [name]) = Some (File b)" by blast
    with h p eq show "is_Ok (extract_attachment d a w) \<and>
               lookup (world_of (extract_attachment d a w)) (d @ [name]) = Some (File b)"
      by auto
  qed
  from eq out inp fsp dec acc show ?thesis by blast
qed

theorem overwrite_prompt_answer_witness:
  "fst (target_filename ''report.pdf''
      \<lparr>fs = [([''out''], Dir), ([''out'', ''00000000000000000000.pdf''], File [0])],
        cwd = [], stdin = [''y''], entropy = (\<lambda>i. 0), cursor = 0, stdout = []\<rparr>)
     = ''00000000000000000000.pdf'' \<and>
   is_Ok (extract_attachment [''out'']
      \<lparr>is_attachment = True, get_filename = Some ''report.pdf'', get_payload = Inr (Some [7, 8, 9])\<rparr>
      \<lparr>fs = [([''out''], Dir), ([''out'', ''00000000000000000000.pdf''], File [0])],
        cwd = [], stdin = [''y''], entropy = (\<lambda>i. 0), cursor = 0, stdout = []\<rparr>) \<and>
   lookup (world_of (extract_attachment [''out'']
      \<lparr>is_attachment = True, get_filename = Some ''report.pdf'', get_payload = Inr (Some [7, 8, 9])\<rparr>
      \<lparr>fs = [([''out''], Dir), ([''out'', ''00000000000000000000.pdf''], File [0])],
        cwd = [], stdin = [''y''], entropy = (\<lambda>i. 0), cursor = 0, stdout = []\<rparr>))
     [''out'', ''00000000000000000000.pdf''] = Some (File [7, 8, 9]) \<and>
   fs (world_of (extract_attachment [''out'']
      \<lparr>is_attachment = True, get_filename = Some ''report.pdf'', get_payload = Inr (Some [7, 8, 9])\<rparr>
      \<lparr>fs = [([''out''], Dir), ([''out'', ''00000000000000000000.pdf''], File [0])],
        cwd = [], stdin = [''yes''], entropy = (\<lambda>i. 0), cursor = 0, stdout = []\<rparr>))
     = [([''out''], Dir), ([''out'', ''00000000000000000000.pdf''], File [0])]"
proof -
  let ?f = "[([''out''], Dir), ([''out'', ''00000000000000000000.pdf''], File [0 :: byte])]"
  let ?w = "\<lparr>fs = ?f, cwd = [], stdin = [''y''], entropy = (\<lambda>i. 0), cursor = 0, stdout = []\<rparr>"
  let ?v = "\<lparr>fs = ?f, cwd = [], stdin = [''yes''], entropy = (\<lambda>i. 0), cursor = 0, stdout = []\<rparr>"
  let ?a = "\<lparr>is_attachment = True, get_filename = Some ''report.pdf'',
             get_payload = Inr (Some [7, 8, 9 :: byte]) :: error + byte list option\<rparr>"
  let ?n = "''00000000000000000000.pdf''"
  have a1: "get_filename ?a = Some ''report.pdf''" by simp
  have a2: "''report.pdf'' \<noteq> []" by simp
  have a3: "get_payload ?a = Inr (Some [7, 8, 9])" by simp
  have nw: "?n = fst (target_filename ''report.pdf'' ?w)" by code_simp
  have nv: "?n = fst (target_filename ''report.pdf'' ?v)" by code_simp
  have ew: "exists_path ?w ([''out''] @ [?n])" by code_simp
  have ev: "exists_path ?v ([''out''] @ [?n])" by code_simp
  have fw: "is_file ?w ([''out''] @ [?n])" by code_simp
  have dw: "is_dir ?w [''out'']" by code_simp
  have sw: "stdin ?w = ''y'' # []" by simp
  have sv: "stdin ?v = ''yes'' # []" by simp
  note accept = overwrite_prompt_answer[OF a1 a2 a3 nw ew sw]
  note decline = overwrite_prompt_answer[OF a1 a2 a3 nv ev sv]
  from accept fw dw have
    "is_Ok (extract_attachment [''out''] ?a ?w) \<and>
     lookup (world_of (extract_attachment [''out''] ?a ?w)) ([''out''] @ [?n]) = Some (File [7, 8, 9])"
    by blast
  moreover from decline have "fs (world_of (extract_attachment [''out''] ?a ?v)) = fs ?v"
    by simp
  ultimately show ?thesis using nw by simp
qed

subsection \<open>C4: what a declined overwrite leaves as it was\<close>














theorem declined_file_overwritten_counterexample:
  "lookup (collision_world [''n'', ''y'']) [''out'', ''00000000000000000000.pdf'']
     = Some (File [0]) \<and>
   stdout (world_of (extract_attachments two_pdf_parser [''mail'', ''m.eml''] [''out'']
      (collision_world [''n'', ''y''])))
     = [Processing [''mail'', ''m.eml''],
        Attachment_found ''00000000000000000000.pdf'',
        Overwrite_prompt ''00000000000000000000.pdf'', Skipping,
        Attachment_found ''00000000000000000000.pdf'',
        Overwrite_prompt ''00000000000000000000.pdf'',
        Saving [''out'', ''00000000000000000000.pdf'']] \<and>
   lookup (world_of (extract_attachments two_pdf_parser [''mail'', ''m.eml''] [''out'']
      (collision_world [''n'', ''y''])))
     [''out'', ''00000000000000000000.pdf''] = Some (File [8]) \<and>
   lookup (source_world [''y'']) [''mail'', ''00000000000000000000.eml''] = Some (File [1, 2]) \<and>
   is_Ok (extract_attachments fwd_parser [''mail'', ''00000000000000000000.eml''] [''mail'']
      (source_world [''y''])) \<and>
   lookup (world_of (extract_attachments fwd_parser [''mail'', ''00000000000000000000.eml'']
      [''mail''] (source_world [''y''])))
     [''mail'', ''00000000000000000000.eml''] = Some (File [9])"
  by code_simp

subsection \<open>C8: when the destination directory is created\<close>


lemma save_attachment_dir:
  "lookup (world_of (save_attachment p payload w)) q = Some Dir \<longleftrightarrow> lookup w q = Some Dir"
proof (cases "q = p")
  case True
  with save_attachment_target[of p payload w] show ?thesis by (auto simp: is_dir_def)
next
  case False
  then show ?thesis by (simp add: save_attachment_lookup)
qed


lemma extract_attachment_normal:
  assumes "get_filename a = Some F" and "F \<noteq> []"
    and "name = fst (target_filename F w)"
    and "w2 = print_line (Attachment_found name) (w\<lparr>cursor := cursor w + 10\<rparr>)"
  shows "extract_attachment d a w =
      (case get_payload a of
         Inl e \<Rightarrow> Raise e w2
       | Inr payload \<Rightarrow>
           if exists_path w (d @ [name]) then
             (case stdin w of
                [] \<Rightarrow> Raise EOFError (print_line (Overwrite_prompt name) w2)
              | overwrite # rest \<Rightarrow>
                  if upper overwrite = ''Y''
                  then save_attachment (d @ [name]) payload
                         ((print_line (Overwrite_prompt name) w2)\<lparr>stdin := rest\<rparr>)
                  else Ok (print_line Skipping
                         ((print_line (Overwrite_prompt name) w2)\<lparr>stdin := rest\<rparr>)))
           else if \<not> has_nul (d @ [name]) \<and> too_long (d @ [name]) then Raise OSError w2
           else
             (case mkdir d w2 of
                Raise e w4 \<Rightarrow> Raise e w4
              | Ok w4 \<Rightarrow> save_attachment (d @ [name]) payload w4))"
  unfolding assms(3,4)
  by (auto simp: extract_attachment_named[OF assms(1,2)] Let_def split: sum.splits list.splits)


lemma is_file_simps [simp]:
  "is_file (print_line x w) p = is_file w p"
  "is_file (w\<lparr>stdin := s\<rparr>) p = is_file w p"
  "is_file (w\<lparr>cursor := c\<rparr>) p = is_file w p"
  by (simp_all add: is_file_def)



lemma is_dir_save_attachment [simp]:
  "is_dir (world_of (save_attachment p payload w)) q = is_dir w q"
  by (simp add: is_dir_def save_attachment_dir)







theorem destination_created_without_write_counterexample:
  "\<not> is_dir (example_world []) [''new''] \<and>
   is_dir (world_of (extract_attachments nul_parser [''mail'', ''m.eml''] [''new'']
      (example_world []))) [''new''] \<and>
   error_of (extract_attachments nul_parser [''mail'', ''m.eml''] [''new''] (example_world []))
     = Some ValueError \<and>
   fs (world_of (extract_attachments nul_parser [''mail'', ''m.eml''] [''new'']
      (example_world [])))
     = ([''new''], Dir) # fs (example_world []) \<and>
   stdout (world_of (extract_attachments nul_parser [''mail'', ''m.eml''] [''new'']
      (example_world [])))
     = [Processing [''mail'', ''m.eml''],
        Attachment_found (''00000000000000000000.p'' @ CHR 0x00 # ''df'')]"
  by code_simp

subsection \<open>What a run prints\<close>

lemma save_attachment_printed:
  "x \<in> set (stdout (world_of (save_attachment p payload w))) \<Longrightarrow>
     x \<in> set (stdout w) \<or> x = Saving p"
  using save_attachment_stdout[of p payload w] by auto

lemma save_attachment_keeps_printed:
  "x \<in> set (stdout w) \<Longrightarrow> x \<in> set (stdout (world_of (save_attachment p payload w)))"
  using save_attachment_stdout[of p payload w] by auto

lemma mkdir_stdout: "stdout (world_of (mkdir p w)) = stdout w"
  by (rule mkdir_fields)



lemma extract_attachment_printed:
  assumes "x \<in> set (stdout (world_of (extract_attachment d a w)))" and "x \<notin> set (stdout w)"
  shows "\<exists>F. get_filename a = Some F \<and> F \<noteq> [] \<and>
           (x = Attachment_found (fst (target_filename F w)) \<or>
            x = Overwrite_prompt (fst (target_filename F w)) \<and>
              Attachment_found (fst (target_filename F w))
                \<in> set (stdout (world_of (extract_attachment d a w))) \<or>
            x = Skipping \<or>
            x = Saving (d @ [fst (target_filename F w)]))"
proof (cases "get_filename a = None \<or> get_filename a = Some []")
  case True
  then have "extract_attachment d a w = Ok w" by (rule extract_attachment_unnamed)
  with assms show ?thesis by simp
next
  case False
  then obtain F where F: "get_filename a = Some F" "F \<noteq> []"
    by (cases "get_filename a") auto
  define name where "name = fst (target_filename F w)"
  define w2 where "w2 = print_line (Attachment_found name) (w\<lparr>cursor := cursor w + 10\<rparr>)"
  note run = extract_attachment_normal[OF F name_def w2_def, of d]
  have o2: "stdout w2 = stdout w @ [Attachment_found name]" by (simp add: w2_def)
  have found: "Attachment_found name \<in> set (stdout (world_of (extract_attachment d a w)))"
  proof -
    have "Attachment_found name \<in> set (stdout w2)" by (simp add: o2)
    then show ?thesis
      using run
      by (auto simp: mkdir_stdout save_attachment_keeps_printed
          split: sum.splits list.splits outcome.splits
          dest!: mkdir_Raise mkdir_Ok)
  qed
  have "x = Attachment_found name \<or> x = Overwrite_prompt name \<or> x = Skipping \<or>
        x = Saving (d @ [name])"
    using assms run o2
    by (auto simp: mkdir_stdout split: sum.splits list.splits outcome.splits if_splits
        dest!: save_attachment_printed mkdir_Raise mkdir_Ok)
  with F found show ?thesis unfolding name_def by blast
qed

subsection \<open>C9: the name in the overwrite prompt\<close>





subsection \<open>C2: messages without attachments\<close>






subsection \<open>C7: the first exception ends the run\<close>

lemma for_attachments_Done:
  "Done \<in> set (stdout (world_of (for_attachments d as w))) \<Longrightarrow> Done \<in> set (stdout w)"
proof (induction as arbitrary: w)
  case Nil
  then show ?case by simp
next
  case (Cons a as)
  define w1 where "w1 = world_of (extract_attachment d a w)"
  have "Done \<in> set (stdout w1)"
  proof (cases "extract_attachment d a w")
    case (Ok w')
    then have "w' = w1" by (simp add: w1_def)
    with Ok Cons.prems Cons.IH[of w1] show ?thesis by simp
  next
    case (Raise e w')
    then have "w' = w1" by (simp add: w1_def)
    with Raise Cons.prems show ?thesis by simp
  qed
  then show ?case
    using extract_attachment_printed[of Done d a w] by (auto simp: w1_def)
qed

lemma extract_attachments_Done:
  assumes "Done \<in> set (stdout (world_of (extract_attachments message_from_file file dest w)))"
  shows "Done \<in> set (stdout w)"
proof -
  define w1 where "w1 = print_line (Processing file) w"
  have loop: "\<And>as. Done \<in> set (stdout (world_of (for_attachments dest as w1))) \<Longrightarrow>
      Done \<in> set (stdout w1)" by (rule for_attachments_Done)
  have "Done \<in> set (stdout w1)"
    using assms loop
    by (auto simp: extract_attachments_def Let_def w1_def[symmetric]
        split: option.splits entry.splits sum.splits if_splits)
  then show ?thesis by (simp add: w1_def)
qed

lemma for_files_Done:
  "Done \<in> set (stdout (world_of (for_files message_from_file dest fl w))) \<Longrightarrow>
     Done \<in> set (stdout w)"
proof (induction fl arbitrary: w)
  case Nil
  then show ?case by simp
next
  case (Cons f fl)
  define w1 where "w1 = world_of (extract_attachments message_from_file f dest w)"
  have "Done \<in> set (stdout w1)"
  proof (cases "extract_attachments message_from_file f dest w")
    case (Ok w')
    then have "w' = w1" by (simp add: w1_def)
    with Ok Cons.prems Cons.IH[of w1] show ?thesis by simp
  next
    case (Raise e w')
    then have "w' = w1" by (simp add: w1_def)
    with Raise Cons.prems show ?thesis by simp
  qed
  then show ?case unfolding w1_def by (rule extract_attachments_Done)
qed

lemma for_files_append:
  "for_files message_from_file dest (pre @ rest) w =
     (case for_files message_from_file dest pre w of
        Raise e w1 \<Rightarrow> Raise e w1
      | Ok w1 \<Rightarrow> for_files message_from_file dest rest w1)"
  by (induction pre arbitrary: w) (auto split: outcome.splits)

lemma for_files_first_error:
  assumes "for_files message_from_file dest pre w = Ok w1"
    and "extract_attachments message_from_file file dest w1 = Raise e w2"
  shows "for_files message_from_file dest (pre @ file # post) w = Raise e w2"
  using assms by (simp add: for_files_append)

text \<open>
  Claim C7. When the extraction of one file of the run raises an exception, after the
  files before it have been processed normally, the whole run ends with that exception in
  the very world in which the failing extraction ended: the result does not depend on the
  files that follow, none of them is processed, nothing is retried, and the final line
  \<open>Done.\<close> is not printed. In the witness the second of three files is malformed: the run
  ends with the parser's exception, the third file is never processed and \<open>Done.\<close> is not
  printed.
\<close>

theorem first_error_ends_run:
  assumes "parse_arguments w argv = Inr args"
    and "eml_files_of w args = pre @ file # post"
    and "for_files message_from_file (destination args) pre w = Ok w1"
    and "extract_attachments message_from_file file (destination args) w1 = Raise e w2"
    and "Done \<notin> set (stdout w)"
  shows "main message_from_file argv w = Raise e w2 \<and> Done \<notin> set (stdout w2)"
proof -
  have loop: "for_files message_from_file (destination args) (pre @ file # post) w = Raise e w2"
    using assms(3,4) by (rule for_files_first_error)
  then have m: "main message_from_file argv w = Raise e w2"
    by (simp add: main_def assms(1,2) Let_def)
  have "Done \<notin> set (stdout w2)"
  proof
    assume "Done \<in> set (stdout w2)"
    with loop have "Done \<in> set (stdout (world_of
        (for_files message_from_file (destination args) (pre @ file # post) w)))" by simp
    then have "Done \<in> set (stdout w)" by (rule for_files_Done)
    with assms(5) show False by simp
  qed
  with m show ?thesis by simp
qed

theorem first_error_ends_run_witness:
  "parse_arguments batch_world
      [Files_option [[''mail'', ''a.eml''], [''mail'', ''bad.eml''], [''mail'', ''c.eml'']],
       Destination_option [''out'']]
     = Inr \<lparr>source = [''mail''], recursive = False,
            files = Some [[''mail'', ''a.eml''], [''mail'', ''bad.eml''], [''mail'', ''c.eml'']],
            destination = [''out'']\<rparr> \<and>
   is_Ok (for_files batch_parser [''out''] [[''mail'', ''a.eml'']] batch_world) \<and>
   error_of (main batch_parser
      [Files_option [[''mail'', ''a.eml''], [''mail'', ''bad.eml''], [''mail'', ''c.eml'']],
       Destination_option [''out'']] batch_world) = Some (LibraryError ''malformed'') \<and>
   Done \<notin> set (stdout (world_of (main batch_parser
      [Files_option [[''mail'', ''a.eml''], [''mail'', ''bad.eml''], [''mail'', ''c.eml'']],
       Destination_option [''out'']] batch_world))) \<and>
   Processing [''mail'', ''bad.eml''] \<in> set (stdout (world_of (main batch_parser
      [Files_option [[''mail'', ''a.eml''], [''mail'', ''bad.eml''], [''mail'', ''c.eml'']],
       Destination_option [''out'']] batch_world))) \<and>
   Processing [''mail'', ''c.eml''] \<notin> set (stdout (world_of (main batch_parser
      [Files_option [[''mail'', ''a.eml''], [''mail'', ''bad.eml''], [''mail'', ''c.eml'']],
       Destination_option [''out'']] batch_world)))"
proof -
  let ?argv = "[Files_option [[''mail'', ''a.eml''], [''mail'', ''bad.eml''], [''mail'', ''c.eml'']],
       Destination_option [''out'']]"
  let ?args = "\<lparr>source = [''mail''], recursive = False,
            files = Some [[''mail'', ''a.eml''], [''mail'', ''bad.eml''], [''mail'', ''c.eml'']],
            destination = [''out'']\<rparr>"
  let ?w1 = "world_of (for_files batch_parser [''out''] [[''mail'', ''a.eml'']] batch_world)"
  let ?w2 = "world_of (extract_attachments batch_parser [''mail'', ''bad.eml''] [''out''] ?w1)"
  have h1: "parse_arguments batch_world ?argv = Inr ?args" by code_simp
  have h2: "eml_files_of batch_world ?args =
      [[''mail'', ''a.eml'']] @ [''mail'', ''bad.eml''] # [[''mail'', ''c.eml'']]" by code_simp
  have ok: "is_Ok (for_files batch_parser [''out''] [[''mail'', ''a.eml'']] batch_world)"
    by code_simp
  have h3: "for_files batch_parser (destination ?args) [[''mail'', ''a.eml'']] batch_world = Ok ?w1"
    using outcome_Ok[OF ok] by simp
  have er: "error_of (extract_attachments batch_parser [''mail'', ''bad.eml''] [''out''] ?w1)
      = Some (LibraryError ''malformed'')" by code_simp
  have h4: "extract_attachments batch_parser [''mail'', ''bad.eml''] (destination ?args) ?w1
      = Raise (LibraryError ''malformed'') ?w2"
    using outcome_Raise[OF er] by simp
  have h5: "Done \<notin> set (stdout batch_world)" by code_simp
  have p: "Processing [''mail'', ''bad.eml''] \<in> set (stdout (world_of (main batch_parser ?argv batch_world)))"
    by code_simp
  have q: "Processing [''mail'', ''c.eml''] \<notin> set (stdout (world_of (main batch_parser ?argv batch_world)))"
    by code_simp
  from first_error_ends_run[OF h1 h2 h3 h4 h5]
  have "main batch_parser ?argv batch_world = Raise (LibraryError ''malformed'') ?w2"
    and "Done \<notin> set (stdout ?w2)" by simp_all
  then have "error_of (main batch_parser ?argv batch_world) = Some (LibraryError ''malformed'')"
    and "Done \<notin> set (stdout (world_of (main batch_parser ?argv batch_world)))" by simp_all
  with h1 ok p q show ?thesis by simp
qed

text \<open>
  The final line and the ending of a run: \<open>Done.\<close> is printed exactly by the runs that end
  normally.
\<close>

theorem done_printed_iff_normal_end:
  assumes "Done \<notin> set (stdout w)"
  shows "Done \<in> set (stdout (world_of (main message_from_file argv w))) \<longleftrightarrow>
         is_Ok (main message_from_file argv w)"
proof (cases "parse_arguments w argv")
  case (Inl status)
  with assms show ?thesis by (simp add: main_def)
next
  case (Inr args)
  define w1 where "w1 = (if eml_files_of w args = [] then print_line No_eml_files_found w else w)"
  have n1: "Done \<notin> set (stdout w1)" using assms by (simp add: w1_def)
  show ?thesis
  proof (cases "for_files message_from_file (destination args) (eml_files_of w args) w1")
    case (Ok w2)
    then show ?thesis by (simp add: main_def Inr Let_def w1_def[symmetric])
  next
    case (Raise e w2)
    have "Done \<notin> set (stdout w2)"
    proof
      assume "Done \<in> set (stdout w2)"
      with Raise have "Done \<in> set (stdout (world_of
        (for_files message_from_file (destination args) (eml_files_of w args) w1)))" by simp
      then have "Done \<in> set (stdout w1)" by (rule for_files_Done)
      with n1 show False by simp
    qed
    with Raise show ?thesis by (simp add: main_def Inr Let_def w1_def[symmetric])
  qed
qed

theorem done_printed_iff_normal_end_witness:
  "Done \<notin> set (stdout (example_world [])) \<and>
   is_Ok (main example_parser [Destination_option [''out'']] (example_world [])) \<and>
   Done \<in> set (stdout (world_of (main example_parser [Destination_option [''out'']]
            (example_world []))))"
proof -
  have h: "Done \<notin> set (stdout (example_world []))" by code_simp
  have ok: "is_Ok (main example_parser [Destination_option [''out'']] (example_world []))"
    by code_simp
  from done_printed_iff_normal_end[OF h, of example_parser "[Destination_option [''out'']]"] ok h
  show ?thesis by simp
qed

subsection \<open>C6: the two source modes exclude each other\<close>










subsection \<open>C5: discovery of message files\<close>

text \<open>
  What the scan returns: the entries of the listing directly under the directory (for the
  recursive scan, anywhere below it) whose name ends in \<open>.eml\<close>, and nothing when the
  path is not a directory. The result is a list in every case, empty when nothing
  matches; the entries found directly under the directory are among those of the
  recursive scan.
\<close>

theorem discovery_characterised:
  "set (get_eml_files_from w d False) =
     (if is_dir w d
      then {p \<in> fst ` set (fs w). p \<noteq> [] \<and> butlast p = d \<and> suffix ''.eml'' (last p)}
      else {}) \<and>
   set (get_eml_files_from w d True) =
     (if is_dir w d
      then {p \<in> fst ` set (fs w). strict_prefix d p \<and> suffix ''.eml'' (last p)}
      else {}) \<and>
   set (get_eml_files_from w d False) \<subseteq> set (get_eml_files_from w d True)"
proof -
  have a: "set (get_eml_files_from w d False) =
     (if is_dir w d
      then {p \<in> fst ` set (fs w). p \<noteq> [] \<and> butlast p = d \<and> suffix ''.eml'' (last p)}
      else {})"
    by (auto simp: get_eml_files_from_def glob_eml_def matches_eml_def)
  have b: "set (get_eml_files_from w d True) =
     (if is_dir w d
      then {p \<in> fst ` set (fs w). strict_prefix d p \<and> suffix ''.eml'' (last p)}
      else {})"
    by (auto simp: get_eml_files_from_def rglob_eml_def matches_eml_def)
  have child: "strict_prefix (butlast p) p" if "p \<noteq> []" for p :: path
  proof -
    from that have "p = butlast p @ [last p]" by simp
    then show ?thesis by (metis strict_prefixI' )
  qed
  have c: "set (get_eml_files_from w d False) \<subseteq> set (get_eml_files_from w d True)"
    unfolding a b using child by auto
  from a b c show ?thesis by blast
qed

theorem discovery_characterised_witness:
  "get_eml_files_from scan_world [''mail''] True =
     [[''mail'', ''a.eml''], [''mail'', ''x.eml''], [''mail'', ''sub'', ''b.eml'']] \<and>
   get_eml_files_from scan_world [''out''] True = [] \<and>
   set (get_eml_files_from scan_world [''mail''] False)
     \<subseteq> set (get_eml_files_from scan_world [''mail''] True)"
proof -
  have a: "get_eml_files_from scan_world [''mail''] True =
     [[''mail'', ''a.eml''], [''mail'', ''x.eml''], [''mail'', ''sub'', ''b.eml'']]"
    by code_simp
  have b: "get_eml_files_from scan_world [''out''] True = []" by code_simp
  from discovery_characterised[of scan_world "[''mail'']"] a b show ?thesis by blast
qed

text \<open>
  Claim C5. The claim has the scan return the files with the extension \<open>.eml\<close>. The scan
  matches names only: a directory whose name ends in \<open>.eml\<close> is returned with the message
  files, where the sibling validator \<open>check_file\<close> of the \<open>--files\<close> mode asks for a regular
  file. In the world below, the scan of \<open>mail\<close> returns the directory \<open>mail/x.eml\<close>, which
  \<open>check_file\<close> refuses, and the run ends with \<open>IsADirectoryError\<close> when it opens it.
\<close>

theorem discovery_returns_directory:
  "get_eml_files_from scan_world [''mail''] False =
     [[''mail'', ''a.eml''], [''mail'', ''x.eml'']] \<and>
   is_dir scan_world [''mail'', ''x.eml''] \<and>
   \<not> is_file scan_world [''mail'', ''x.eml''] \<and>
   check_file scan_world [''mail'', ''x.eml''] = Inl ArgumentTypeError \<and>
   check_file scan_world [''mail'', ''a.eml''] = Inr [''mail'', ''a.eml''] \<and>
   error_of (main example_parser [Destination_option [''out'']] scan_world)
     = Some IsADirectoryError"
  by code_simp

end
